theory Spec2Isabelle
  imports Main
begin

section \<open>The GitHub activity watcher of \<^verbatim>\<open>src/App.js\<close>\<close>

text \<open>
  The component \<^verbatim>\<open>GitHubWatcher\<close> keeps six pieces of React state, polls the GitHub
  REST API in the asynchronous function \<^verbatim>\<open>fetchData\<close>, adds tracked accounts in
  \<^verbatim>\<open>handleAddProfiles\<close> and drives the polling from one \<^verbatim>\<open>useEffect\<close>.

  The embedding below follows the source line by line. What the source leaves to its
  host is made explicit:
  \<^item> the remote service and \<^verbatim>\<open>Date.parse\<close> are fields of an environment \<open>env\<close>;
  \<^item> every \<^verbatim>\<open>await\<close> that can reject returns an \<open>outcome\<close>, and the
    \<^verbatim>\<open>try\<close>/\<^verbatim>\<open>catch\<close> blocks are case distinctions on it;
  \<^item> every call of \<^verbatim>\<open>fetch\<close> is appended to a list of requests, so that a statement
    "no request is issued" can be read off the result.
\<close>

subsection \<open>JSON bodies, as the source reads them\<close>

text \<open>
  Only the members the source reads are kept. The member \<^verbatim>\<open>resources.core\<close> of the
  rate-limit body:
\<close>

record core =
  limit :: int
  remaining :: int
  reset :: int

text \<open>The profile of \<^verbatim>\<open>GET /users/{profile}\<close>; line 70 reads \<^verbatim>\<open>public_repos\<close>.\<close>

record userData =
  public_repos :: int

text \<open>
  One element of the repositories listing. \<^verbatim>\<open>homepage\<close> and \<^verbatim>\<open>language\<close> are
  a string or \<^verbatim>\<open>null\<close>.
\<close>

record repo_json =
  repo_name :: string
  repo_html_url :: string
  repo_homepage :: "string option"
  repo_language :: "string option"
  repo_created_at :: string

text \<open>
  One element of the commits listing: \<^verbatim>\<open>commit.message\<close>,
  \<^verbatim>\<open>commit.author.date\<close> and \<^verbatim>\<open>html_url\<close>.
\<close>

record commit_json =
  commit_message :: string
  commit_author_date :: string
  commit_html_url :: string

text \<open>
  The body of the commits listing is a JSON array, or a JSON object without a member
  \<^verbatim>\<open>length\<close>: that is what GitHub sends with a non-success status (409 for an empty
  repository, 403, 404), and the source does not look at the status of this response.
\<close>

datatype commits_json = CommitArray "commit_json list" | ErrorObject

subsection \<open>Awaited results and the environment\<close>

text \<open>
  \<open>Throws m\<close>: the awaited promise rejected, or reading the body raised, with an error
  whose \<^verbatim>\<open>message\<close> is \<open>m\<close>. \<open>Returns v\<close>: the body was read as \<open>v\<close>.
\<close>

datatype 'a outcome = Throws string | Returns 'a

text \<open>
  The response to the profile request is the only one whose \<^verbatim>\<open>ok\<close> flag is read
  (line 37). \<open>NotOk\<close>: the flag is false. \<open>OkJson j\<close>: the flag is true and
  \<^verbatim>\<open>userResponse.json()\<close> settles as \<open>j\<close>.
\<close>

datatype user_response = NotOk | OkJson "userData outcome"

text \<open>
  The value of \<^verbatim>\<open>headers\<close> (line 13): no header, or the value of the
  \<^verbatim>\<open>Authorization\<close> header.
\<close>

type_synonym headers = "string option"

definition headers_of :: "string \<Rightarrow> headers" where
  "headers_of tok = (if tok = [] then None else Some (''token '' @ tok))"

text \<open>
  The environment of one run of \<^verbatim>\<open>fetchData\<close>.
  \<^item> \<open>fetch_rate_limit h\<close> is lines 21-23 up to the read of \<^verbatim>\<open>resources.core\<close>:
    \<open>Throws\<close> when \<^verbatim>\<open>fetch\<close> rejects, when the body is not JSON, or when the body
    has no member \<^verbatim>\<open>resources\<close> (GitHub's bodies for a non-success status), where
    \<^verbatim>\<open>rateLimitData.resources.core\<close> raises a TypeError.
  \<^item> \<open>fetch_user h p\<close> is line 36, with what line 40 will read if the response is
    \<^verbatim>\<open>ok\<close>; the body of such a response is the profile object.
  \<^item> \<open>fetch_repos h p\<close> is lines 42-43: \<open>Throws\<close> when \<^verbatim>\<open>fetch\<close> or
    \<^verbatim>\<open>json()\<close> rejects, or when the body is not an array, where line 45 or the
    \<^verbatim>\<open>for ... of\<close> of line 53 raises a TypeError; nothing is written between line 42
    and line 53.
  \<^item> \<open>fetch_commits h p n\<close> is lines 54-55 for the repository named \<open>n\<close>, with the
    fixed \<^verbatim>\<open>since\<close> parameter of line 50: \<open>Throws\<close> when \<^verbatim>\<open>fetch\<close> or
    \<^verbatim>\<open>json()\<close> rejects, or when reading the body raises a TypeError (the body
    \<^verbatim>\<open>null\<close>, an element without the member \<^verbatim>\<open>commit\<close>); the argument of
    \<^verbatim>\<open>push\<close> is evaluated before the call, so nothing is written before such an
    exception.
  \<^item> \<open>Date_parse s\<close> is the time value of \<^verbatim>\<open>Date.parse(s)\<close> in milliseconds,
    \<open>None\<close> for \<^verbatim>\<open>NaN\<close>.

  The remote data is taken as fixed during one run: a response is a function of the
  request.
\<close>

record env =
  fetch_rate_limit :: "headers \<Rightarrow> core outcome"
  fetch_user :: "headers \<Rightarrow> string \<Rightarrow> user_response outcome"
  fetch_repos :: "headers \<Rightarrow> string \<Rightarrow> repo_json list outcome"
  fetch_commits :: "headers \<Rightarrow> string \<Rightarrow> string \<Rightarrow> commits_json outcome"
  Date_parse :: "string \<Rightarrow> int option"

text \<open>The calls of \<^verbatim>\<open>fetch\<close>, by endpoint.\<close>

datatype request =
  GetRateLimit
  | GetUser string
  | GetRepos string
  | GetCommits string string

subsection \<open>Dates and numbers\<close>

text \<open>
  A \<^verbatim>\<open>Date\<close> object is its time value: \<open>Some t\<close> for \<open>t\<close> milliseconds since the
  epoch, \<open>None\<close> for an invalid date. \<open>TimeClip\<close> is the operation of that name in
  ECMAScript: a time value beyond \<open>8.64e15\<close> milliseconds is not a date.
\<close>

type_synonym Date = "int option"

definition TimeClip :: "int \<Rightarrow> Date" where
  "TimeClip t = (if \<bar>t\<bar> > 8640000000000000 then None else Some t)"

text \<open>\<^verbatim>\<open>new Date(s)\<close> for a string \<open>s\<close>.\<close>

definition new_Date :: "env \<Rightarrow> string \<Rightarrow> Date" where
  "new_Date e s = (case Date_parse e s of None \<Rightarrow> None | Some t \<Rightarrow> TimeClip t)"

text \<open>
  The numbers line 71 computes with: \<^verbatim>\<open>NaN\<close>, \<^verbatim>\<open>-Infinity\<close> (the value of
  \<^verbatim>\<open>Math.max()\<close> without arguments) and the integers.
\<close>

datatype number = NaN | NegInfinity | Finite int

text \<open>The number a \<^verbatim>\<open>Date\<close> converts to, as \<^verbatim>\<open>Math.max\<close> converts it.\<close>

definition valueOf :: "Date \<Rightarrow> number" where
  "valueOf d = (case d of None \<Rightarrow> NaN | Some t \<Rightarrow> Finite t)"

fun larger :: "number \<Rightarrow> number \<Rightarrow> number" where
  "larger NaN y = NaN"
| "larger x NaN = NaN"
| "larger NegInfinity y = y"
| "larger x NegInfinity = x"
| "larger (Finite a) (Finite b) = Finite (max a b)"

text \<open>\<^verbatim>\<open>Math.max(...xs)\<close>: \<^verbatim>\<open>NaN\<close> if an argument is, else the largest.\<close>

definition Math_max :: "number list \<Rightarrow> number" where
  "Math_max xs = fold larger xs NegInfinity"

text \<open>\<^verbatim>\<open>new Date(x)\<close> for a number \<open>x\<close>.\<close>

definition new_Date_number :: "number \<Rightarrow> Date" where
  "new_Date_number x = (case x of NaN \<Rightarrow> None | NegInfinity \<Rightarrow> None | Finite t \<Rightarrow> TimeClip t)"

subsection \<open>The activity records (lines 58-73)\<close>

record commit_view =
  message :: string
  date :: Date
  commitUrl :: string

record activity =
  activity_type :: string
  profile :: string
  repo :: string
  repoUrl :: string
  productionUrl :: "string option"
  techStack :: "string option"
  commits :: "commit_view list"
  repoCount :: int
  lastUpdated :: Date
  creationDate :: Date

text \<open>\<^verbatim>\<open>repo.homepage || null\<close>: the empty string is falsy.\<close>

definition or_null :: "string option \<Rightarrow> string option" where
  "or_null v = (case v of None \<Rightarrow> None | Some s \<Rightarrow> if s = [] then None else Some s)"

text \<open>The arrow function of lines 65-69.\<close>

definition view_commit :: "env \<Rightarrow> commit_json \<Rightarrow> commit_view" where
  "view_commit e c =
     \<lparr>message = commit_message c,
      date = new_Date e (commit_author_date c),
      commitUrl = commit_html_url c\<rparr>"

text \<open>The object literal of lines 58-73, for the repository \<open>r\<close> and its commits \<open>cs\<close>.\<close>

definition make_activity ::
  "env \<Rightarrow> string \<Rightarrow> repo_json \<Rightarrow> commit_json list \<Rightarrow> userData \<Rightarrow> activity" where
  "make_activity e p r cs ud =
     \<lparr>activity_type = ''activity'',
      profile = p,
      repo = repo_name r,
      repoUrl = repo_html_url r,
      productionUrl = or_null (repo_homepage r),
      techStack = repo_language r,
      commits = map (view_commit e) cs,
      repoCount = public_repos ud,
      lastUpdated =
        new_Date_number
          (Math_max (map (\<lambda>c. valueOf (new_Date e (commit_author_date c))) cs)),
      creationDate = new_Date e (repo_created_at r)\<rparr>"

subsection \<open>The component state (lines 6-11)\<close>

text \<open>
  \<open>errors\<close> is a JavaScript object used as a dictionary: a map from property names to
  messages. \<open>rateLimit\<close> is \<^verbatim>\<open>null\<close> until the first successful check.
\<close>

record state =
  profiles :: "string list"
  newProfiles :: string
  activities :: "activity list"
  errors :: "string \<rightharpoonup> string"
  token :: string
  rateLimit :: "core option"

text \<open>
  The assignment \<^verbatim>\<open>obj[k] = v\<close> on an object created by \<^verbatim>\<open>{}\<close>, for a string
  \<open>v\<close>. The property \<^verbatim>\<open>__proto__\<close> is inherited from \<^verbatim>\<open>Object.prototype\<close> as an
  accessor whose setter ignores every value that is neither an object nor
  \<^verbatim>\<open>null\<close>: the assignment of a string to it creates no property. Every other key
  becomes (or stays) an own property holding \<open>v\<close>.
\<close>

definition obj_set :: "(string \<rightharpoonup> string) \<Rightarrow> string \<Rightarrow> string \<Rightarrow> (string \<rightharpoonup> string)" where
  "obj_set obj k v = (if k = ''__proto__'' then obj else obj(k \<mapsto> v))"

subsection \<open>One polling cycle: \<^verbatim>\<open>fetchData\<close> (lines 16-82)\<close>

text \<open>
  The local variables of a run (lines 17-18), with the requests issued so far.
\<close>

record cycle =
  newActivities :: "activity list"
  newErrors :: "string \<rightharpoonup> string"
  requests :: "request list"

text \<open>
  Lines 36-40: the profile request. A rejected \<^verbatim>\<open>fetch\<close>, a response that is not
  \<^verbatim>\<open>ok\<close> and a rejected \<^verbatim>\<open>json()\<close> all leave the \<^verbatim>\<open>try\<close> block with an error.
\<close>

definition get_user :: "env \<Rightarrow> headers \<Rightarrow> string \<Rightarrow> userData outcome" where
  "get_user e h p =
     (case fetch_user e h p of
        Throws m \<Rightarrow> Throws m
      | Returns NotOk \<Rightarrow> Throws (''User '' @ p @ '' not found'')
      | Returns (OkJson j) \<Rightarrow> j)"

text \<open>
  Lines 53-75: the loop over the repositories. The result is the message of the
  exception that left the loop, if one did, and the local variables as they are then:
  \<^verbatim>\<open>newActivities.push\<close> has already happened for the earlier repositories.
\<close>

fun for_repos ::
  "env \<Rightarrow> headers \<Rightarrow> string \<Rightarrow> userData \<Rightarrow> repo_json list \<Rightarrow> cycle \<Rightarrow> string option \<times> cycle" where
  "for_repos e h p ud [] c = (None, c)"
| "for_repos e h p ud (r # rs) c =
     (let c1 = c\<lparr>requests := requests c @ [GetCommits p (repo_name r)]\<rparr> in
      case fetch_commits e h p (repo_name r) of
        Throws m \<Rightarrow> (Some m, c1)
      | Returns ErrorObject \<Rightarrow> for_repos e h p ud rs c1
      | Returns (CommitArray cs) \<Rightarrow>
          if length cs > 0
          then for_repos e h p ud rs
                 (c1\<lparr>newActivities := newActivities c1 @ [make_activity e p r cs ud]\<rparr>)
          else for_repos e h p ud rs c1)"

text \<open>Lines 35-78: the body of the loop over the tracked accounts.\<close>

definition for_profile :: "env \<Rightarrow> headers \<Rightarrow> string \<Rightarrow> cycle \<Rightarrow> cycle" where
  "for_profile e h p c =
     (let c1 = c\<lparr>requests := requests c @ [GetUser p]\<rparr> in
      case get_user e h p of
        Throws m \<Rightarrow> c1\<lparr>newErrors := obj_set (newErrors c1) p m\<rparr>
      | Returns ud \<Rightarrow>
          (let c2 = c1\<lparr>requests := requests c1 @ [GetRepos p]\<rparr> in
           case fetch_repos e h p of
             Throws m \<Rightarrow> c2\<lparr>newErrors := obj_set (newErrors c2) p m\<rparr>
           | Returns rs \<Rightarrow>
               if length rs = 0
               then c2\<lparr>newErrors :=
                      obj_set (newErrors c2) p (''No public repositories found for '' @ p)\<rparr>
               else (case for_repos e h p ud rs c2 of
                       (None, c3) \<Rightarrow> c3
                     | (Some m, c3) \<Rightarrow> c3\<lparr>newErrors := obj_set (newErrors c3) p m\<rparr>)))"

text \<open>Line 34: the loop over \<^verbatim>\<open>profiles\<close>, in the order of the array.\<close>

definition for_profiles :: "env \<Rightarrow> headers \<Rightarrow> string list \<Rightarrow> cycle \<Rightarrow> cycle" where
  "for_profiles e h ps c = fold (for_profile e h) ps c"

text \<open>
  \<^verbatim>\<open>fetchData\<close>. It reads \<^verbatim>\<open>profiles\<close> and \<^verbatim>\<open>token\<close> as they were when the effect
  ran, and writes \<^verbatim>\<open>rateLimit\<close>, \<^verbatim>\<open>errors\<close> and \<^verbatim>\<open>activities\<close>; it reads none of
  the three, so what a run writes is determined by its closure and the answers of
  the service, and the run is modelled as one step. The result is the state after the
  run and the requests the run issued. Runs that overlap in time are not modelled.
\<close>

definition fetchData :: "env \<Rightarrow> state \<Rightarrow> state \<times> request list" where
  "fetchData e st =
     (let h = headers_of (token st) in
      case fetch_rate_limit e h of
        Throws m \<Rightarrow>
          (st\<lparr>errors := [''global'' \<mapsto> ''Error checking rate limit: '' @ m]\<rparr>,
           [GetRateLimit])
      | Returns rl \<Rightarrow>
          (let st1 = st\<lparr>rateLimit := Some rl\<rparr> in
           if remaining rl = 0
           then (st1\<lparr>errors :=
                    [''global'' \<mapsto>
                       ''API rate limit exceeded. Please wait or add a Personal Access Token.'']\<rparr>,
                 [GetRateLimit])
           else (let c = for_profiles e h (profiles st)
                           \<lparr>newActivities = [], newErrors = Map.empty,
                            requests = [GetRateLimit]\<rparr>
                 in (st1\<lparr>activities := newActivities c, errors := newErrors c\<rparr>,
                     requests c))))"

subsection \<open>Adding tracked accounts: \<^verbatim>\<open>handleAddProfiles\<close> (lines 91-98)\<close>

text \<open>
  A string is a list of code units; a \<open>char\<close> holds the code units below 256. The
  white space \<^verbatim>\<open>trim\<close> removes is, in that range, TAB, LF, VT, FF, CR, SP and
  NBSP; the other white space of ECMAScript lies above it.
\<close>

definition is_space :: "char \<Rightarrow> bool" where
  "is_space c = (of_char c \<in> {9, 10, 11, 12, 13, 32, 160 :: nat})"

definition trim :: "string \<Rightarrow> string" where
  "trim s = rev (dropWhile is_space (rev (dropWhile is_space s)))"

text \<open>
  \<^verbatim>\<open>s.split(sep)\<close> for a separator of one code unit: the pieces between the
  separators, in order; the empty string gives one empty piece. The last case of the
  inner distinction is never taken, since the result is never empty.
\<close>

fun split_at :: "char \<Rightarrow> string \<Rightarrow> string list" where
  "split_at sep [] = [[]]"
| "split_at sep (c # cs) =
     (if c = sep then [] # split_at sep cs
      else (case split_at sep cs of
              w # ws \<Rightarrow> (c # w) # ws
            | [] \<Rightarrow> [[c]]))"

text \<open>
  Line 93: the pieces of the input, trimmed, without the empty ones and without the
  ones \<^verbatim>\<open>profiles\<close> already includes.
\<close>

definition profileList :: "state \<Rightarrow> string list" where
  "profileList st =
     filter (\<lambda>p. p \<noteq> [] \<and> p \<notin> set (profiles st))
       (map trim (split_at CHR '','' (newProfiles st)))"

text \<open>
  Lines 94-97. The updater of \<^verbatim>\<open>setProfiles\<close> appends to the current array, which
  is the \<^verbatim>\<open>profiles\<close> line 93 has read when no other update is pending.
\<close>

definition handleAddProfiles :: "state \<Rightarrow> state" where
  "handleAddProfiles st =
     (if length (profileList st) > 0
      then st\<lparr>profiles := profiles st @ profileList st, newProfiles := []\<rparr>
      else st)"

subsection \<open>The polling effect (lines 15 and 84-89)\<close>

text \<open>
  What the effect touches outside the component state: the host's table of armed
  intervals, the cleanup function React holds for the effect, the dependency values of
  the effect's last run, and the calls of \<^verbatim>\<open>fetchData\<close> made so far. A call is
  recorded with the \<^verbatim>\<open>profiles\<close> and \<^verbatim>\<open>token\<close> its closure has captured; an armed
  interval with its handle, its period in milliseconds and the closure it calls.
\<close>

type_synonym closure = "string list \<times> string"

record scheduler =
  last_deps :: "closure option"
  pending_cleanup :: "nat option"
  intervals :: "(nat \<times> nat \<times> closure) list"
  next_handle :: nat
  calls :: "closure list"

definition mount :: scheduler where
  "mount = \<lparr>last_deps = None, pending_cleanup = None, intervals = [], next_handle = 0,
            calls = []\<rparr>"

text \<open>\<^verbatim>\<open>setInterval(f, ms)\<close>: a fresh handle, and the interval armed.\<close>

definition setInterval :: "closure \<Rightarrow> nat \<Rightarrow> scheduler \<Rightarrow> nat \<times> scheduler" where
  "setInterval f ms s =
     (next_handle s,
      s\<lparr>intervals := intervals s @ [(next_handle s, ms, f)],
        next_handle := Suc (next_handle s)\<rparr>)"

text \<open>\<^verbatim>\<open>clearInterval(i)\<close>.\<close>

definition clearInterval :: "nat \<Rightarrow> scheduler \<Rightarrow> scheduler" where
  "clearInterval i s = s\<lparr>intervals := filter (\<lambda>x. fst x \<noteq> i) (intervals s)\<rparr>"

text \<open>
  Lines 84-88, the effect function after the declaration of \<^verbatim>\<open>fetchData\<close>: with a
  tracked account it calls \<^verbatim>\<open>fetchData\<close>, arms an interval of 100000 milliseconds
  and returns the cleanup that clears it; without one it does nothing and returns no
  cleanup.
\<close>

definition effect :: "string list \<Rightarrow> string \<Rightarrow> scheduler \<Rightarrow> scheduler" where
  "effect ps tok s =
     (if length ps > 0
      then (let s1 = s\<lparr>calls := calls s @ [(ps, tok)]\<rparr>;
                (i, s2) = setInterval (ps, tok) 100000 s1
            in s2\<lparr>pending_cleanup := Some i\<rparr>)
      else s\<lparr>pending_cleanup := None\<rparr>)"

text \<open>Line 87, run by React: the cleanup the last run of the effect returned.\<close>

definition run_cleanup :: "scheduler \<Rightarrow> scheduler" where
  "run_cleanup s =
     (case pending_cleanup s of
        None \<Rightarrow> s
      | Some i \<Rightarrow> (clearInterval i s)\<lparr>pending_cleanup := None\<rparr>)"

text \<open>
  The events that reach the effect.
  \<^item> \<open>Commit ps tok\<close>: React commits a render in which \<^verbatim>\<open>profiles\<close> is \<open>ps\<close> and
    \<^verbatim>\<open>token\<close> is \<open>tok\<close>. By the contract of \<^verbatim>\<open>useEffect\<close> with the dependencies
    of line 89, the effect runs on the first commit and on every commit where a
    dependency differs from the last run, after the cleanup of the last run. The array
    \<^verbatim>\<open>profiles\<close> is replaced only by line 95, which appends at least one element, so
    that comparing the arrays by identity and by content agree.
  \<^item> \<open>Fire i\<close>: the host fires the interval with handle \<open>i\<close>, if it is armed.
  \<^item> \<open>Unmount\<close>: React removes the component and runs the cleanup.
\<close>

datatype event = Commit "string list" string | Fire nat | Unmount

fun step :: "scheduler \<Rightarrow> event \<Rightarrow> scheduler" where
  "step s (Commit ps tok) =
     (if last_deps s = Some (ps, tok) then s
      else effect ps tok ((run_cleanup s)\<lparr>last_deps := Some (ps, tok)\<rparr>))"
| "step s (Fire i) =
     (case map_of (intervals s) i of
        None \<Rightarrow> s
      | Some (ms, f) \<Rightarrow> s\<lparr>calls := calls s @ [f]\<rparr>)"
| "step s Unmount = run_cleanup s"

definition run :: "scheduler \<Rightarrow> event list \<Rightarrow> scheduler" where
  "run s evs = foldl step s evs"

section \<open>What one account contributes to a cycle\<close>

text \<open>
  The definitions of this section are not translations of the source. They say, in the
  words of the specification, what an account contributes to a cycle; the lemmas
  \<open>for_repos_eq\<close>, \<open>for_profile_eq\<close> and \<open>for_profiles_eq\<close> below show that the
  loops of the source compute exactly that.

  \<open>throws x\<close>: the awaited result \<open>x\<close> is an exception.
\<close>

definition throws :: "'a outcome \<Rightarrow> bool" where
  "throws x = (case x of Throws m \<Rightarrow> True | Returns v \<Rightarrow> False)"

text \<open>
  The repositories of an account whose commit request returned, in discovery order:
  those before the first repository whose commit request throws.
\<close>

definition reached :: "env \<Rightarrow> headers \<Rightarrow> string \<Rightarrow> repo_json list \<Rightarrow> repo_json list" where
  "reached e h p rs = takeWhile (\<lambda>r. \<not> throws (fetch_commits e h p (repo_name r))) rs"

text \<open>
  The repositories for which a commit request is issued: the ones above, and the first
  one whose request throws.
\<close>

definition attempted :: "env \<Rightarrow> headers \<Rightarrow> string \<Rightarrow> repo_json list \<Rightarrow> repo_json list" where
  "attempted e h p rs =
     reached e h p rs
       @ take 1 (dropWhile (\<lambda>r. \<not> throws (fetch_commits e h p (repo_name r))) rs)"

text \<open>The message of the first commit request that throws, if one does.\<close>

definition first_failure :: "env \<Rightarrow> headers \<Rightarrow> string \<Rightarrow> repo_json list \<Rightarrow> string option" where
  "first_failure e h p rs =
     (case dropWhile (\<lambda>r. \<not> throws (fetch_commits e h p (repo_name r))) rs of
        [] \<Rightarrow> None
      | r # rest \<Rightarrow> (case fetch_commits e h p (repo_name r) of
                      Throws m \<Rightarrow> Some m
                    | Returns b \<Rightarrow> None))"

text \<open>
  The records a reached repository contributes: one if its commit listing is a
  non-empty array, none otherwise.
\<close>

definition record_of :: "env \<Rightarrow> headers \<Rightarrow> string \<Rightarrow> userData \<Rightarrow> repo_json \<Rightarrow> activity list" where
  "record_of e h p ud r =
     (case fetch_commits e h p (repo_name r) of
        Returns (CommitArray cs) \<Rightarrow> if cs = [] then [] else [make_activity e p r cs ud]
      | Returns ErrorObject \<Rightarrow> []
      | Throws m \<Rightarrow> [])"

text \<open>
  The records of an account, in the order of its repositories: none unless the profile
  and the repositories listing were obtained.
\<close>

definition account_records :: "env \<Rightarrow> headers \<Rightarrow> string \<Rightarrow> activity list" where
  "account_records e h p =
     (case get_user e h p of
        Throws m \<Rightarrow> []
      | Returns ud \<Rightarrow>
          (case fetch_repos e h p of
             Throws m \<Rightarrow> []
           | Returns rs \<Rightarrow> concat (map (record_of e h p ud) (reached e h p rs))))"

text \<open>The message recorded for an account, if one is.\<close>

definition account_error :: "env \<Rightarrow> headers \<Rightarrow> string \<Rightarrow> string option" where
  "account_error e h p =
     (case get_user e h p of
        Throws m \<Rightarrow> Some m
      | Returns ud \<Rightarrow>
          (case fetch_repos e h p of
             Throws m \<Rightarrow> Some m
           | Returns rs \<Rightarrow>
               if rs = [] then Some (''No public repositories found for '' @ p)
               else first_failure e h p rs))"

text \<open>The requests issued for an account, in order.\<close>

definition account_requests :: "env \<Rightarrow> headers \<Rightarrow> string \<Rightarrow> request list" where
  "account_requests e h p =
     GetUser p #
     (case get_user e h p of
        Throws m \<Rightarrow> []
      | Returns ud \<Rightarrow>
          GetRepos p #
          (case fetch_repos e h p of
             Throws m \<Rightarrow> []
           | Returns rs \<Rightarrow> map (\<lambda>r. GetCommits p (repo_name r)) (attempted e h p rs)))"

text \<open>
  The error object after the accounts \<open>ps\<close>, starting from \<open>old\<close>: an account of
  \<open>ps\<close> with a message holds it, unless its name is the property \<^verbatim>\<open>__proto__\<close>,
  which \<open>obj_set\<close> cannot write.
\<close>

definition merged_errors ::
  "env \<Rightarrow> headers \<Rightarrow> string list \<Rightarrow> (string \<rightharpoonup> string) \<Rightarrow> (string \<rightharpoonup> string)" where
  "merged_errors e h ps old =
     (\<lambda>q. if q \<in> set ps \<and> q \<noteq> ''__proto__'' \<and> account_error e h q \<noteq> None
          then account_error e h q else old q)"

text \<open>
  The commits listed for a repository, in the order of the listing; none when the
  listing is not an array or the request throws.
\<close>

definition listed_commits :: "env \<Rightarrow> headers \<Rightarrow> string \<Rightarrow> repo_json \<Rightarrow> commit_json list" where
  "listed_commits e h p r =
     (case fetch_commits e h p (repo_name r) of
        Returns (CommitArray cs) \<Rightarrow> cs
      | Returns ErrorObject \<Rightarrow> []
      | Throws m \<Rightarrow> [])"

text \<open>
  The repositories of an account that get a record: those of the repositories listing,
  in its order, that are reached and have a commit listed; none unless the profile and
  the repositories listing were obtained.
\<close>

definition active_repos :: "env \<Rightarrow> headers \<Rightarrow> string \<Rightarrow> repo_json list" where
  "active_repos e h p =
     (case get_user e h p of
        Throws m \<Rightarrow> []
      | Returns ud \<Rightarrow>
          (case fetch_repos e h p of
             Throws m \<Rightarrow> []
           | Returns rs \<Rightarrow> filter (\<lambda>r. listed_commits e h p r \<noteq> []) (reached e h p rs)))"

text \<open>
  A commit listing without a qualifying commit: an empty array, or a body that is not
  an array.
\<close>

definition no_commits :: "commits_json outcome \<Rightarrow> bool" where
  "no_commits x =
     (case x of
        Throws m \<Rightarrow> False
      | Returns ErrorObject \<Rightarrow> True
      | Returns (CommitArray cs) \<Rightarrow> cs = [])"

text \<open>
  The states of the polling effect that its events can produce: an interval is armed
  exactly while a cleanup is pending, it is the one the cleanup clears, it has the
  period of line 86, and it calls the closure of the effect's last run, which has seen
  a tracked account.
\<close>

definition consistent :: "scheduler \<Rightarrow> bool" where
  "consistent s =
     (case pending_cleanup s of
        None \<Rightarrow> intervals s = []
      | Some i \<Rightarrow>
          (case last_deps s of
             None \<Rightarrow> False
           | Some f \<Rightarrow> fst f \<noteq> [] \<and> intervals s = [(i, 100000, f)]))"

section \<open>Example data\<close>

text \<open>
  A small remote service, used to evaluate the model: \<^verbatim>\<open>alice\<close> has the repositories
  \<^verbatim>\<open>x\<close>, with two commits since the reference date, and \<^verbatim>\<open>y\<close>, with none;
  \<^verbatim>\<open>carol\<close> has the empty repository \<^verbatim>\<open>z\<close>, for which the commits endpoint answers
  with an error body; \<^verbatim>\<open>dave\<close> has no repository; every other profile request is
  answered with a non-success status.
\<close>

definition demo_parse :: "string \<Rightarrow> int option" where
  "demo_parse s =
     (if s = ''2024-09-28T10:00:00Z'' then Some 1727517600000
      else if s = ''2024-09-29T08:30:00Z'' then Some 1727598600000
      else if s = ''2024-01-15T09:00:00Z'' then Some 1705309200000
      else None)"

definition repo_x :: repo_json where
  "repo_x = \<lparr>repo_name = ''x'', repo_html_url = ''https://github.com/alice/x'',
             repo_homepage = Some [], repo_language = Some ''JavaScript'',
             repo_created_at = ''2024-01-15T09:00:00Z''\<rparr>"

definition repo_y :: repo_json where
  "repo_y = \<lparr>repo_name = ''y'', repo_html_url = ''https://github.com/alice/y'',
             repo_homepage = None, repo_language = None,
             repo_created_at = ''2024-01-15T09:00:00Z''\<rparr>"

definition repo_z :: repo_json where
  "repo_z = \<lparr>repo_name = ''z'', repo_html_url = ''https://github.com/carol/z'',
             repo_homepage = None, repo_language = None,
             repo_created_at = ''2024-01-15T09:00:00Z''\<rparr>"

definition commit_1 :: commit_json where
  "commit_1 = \<lparr>commit_message = ''first'', commit_author_date = ''2024-09-28T10:00:00Z'',
               commit_html_url = ''https://github.com/alice/x/commit/1''\<rparr>"

definition commit_2 :: commit_json where
  "commit_2 = \<lparr>commit_message = ''second'', commit_author_date = ''2024-09-29T08:30:00Z'',
               commit_html_url = ''https://github.com/alice/x/commit/2''\<rparr>"

definition rl_demo :: core where
  "rl_demo = \<lparr>limit = 60, remaining = 57, reset = 1727520000\<rparr>"

definition env_demo :: env where
  "env_demo =
     \<lparr>fetch_rate_limit = (\<lambda>h. Returns rl_demo),
      fetch_user = (\<lambda>h p.
        if p = ''alice'' then Returns (OkJson (Returns \<lparr>public_repos = 7\<rparr>))
        else if p = ''carol'' then Returns (OkJson (Returns \<lparr>public_repos = 1\<rparr>))
        else if p = ''dave'' then Returns (OkJson (Returns \<lparr>public_repos = 0\<rparr>))
        else Returns NotOk),
      fetch_repos = (\<lambda>h p.
        if p = ''alice'' then Returns [repo_x, repo_y]
        else if p = ''carol'' then Returns [repo_z]
        else Returns []),
      fetch_commits = (\<lambda>h p n.
        if p = ''alice'' \<and> n = ''x'' then Returns (CommitArray [commit_2, commit_1])
        else if p = ''carol'' then Returns ErrorObject
        else Returns (CommitArray [])),
      Date_parse = demo_parse\<rparr>"

text \<open>The same service with the quota used up, and with the rate-limit request failing.\<close>

definition env_quota :: env where
  "env_quota = env_demo\<lparr>fetch_rate_limit := (\<lambda>h. Returns (rl_demo\<lparr>remaining := 0\<rparr>))\<rparr>"

definition env_offline :: env where
  "env_offline = env_demo\<lparr>fetch_rate_limit := (\<lambda>h. Throws ''Failed to fetch'')\<rparr>"

text \<open>
  The same service, where \<^verbatim>\<open>alice\<close> has a third repository \<^verbatim>\<open>w\<close> and the commit
  request for her second repository \<^verbatim>\<open>y\<close> fails.
\<close>

definition repo_w :: repo_json where
  "repo_w = \<lparr>repo_name = ''w'', repo_html_url = ''https://github.com/alice/w'',
             repo_homepage = None, repo_language = None,
             repo_created_at = ''2024-01-15T09:00:00Z''\<rparr>"

definition env_broken :: env where
  "env_broken =
     env_demo\<lparr>fetch_repos := (\<lambda>h p.
                 if p = ''alice'' then Returns [repo_x, repo_y, repo_w]
                 else fetch_repos env_demo h p),
               fetch_commits := (\<lambda>h p n.
                 if p = ''alice'' \<and> n = ''y'' then Throws ''Failed to fetch''
                 else fetch_commits env_demo h p n)\<rparr>"

text \<open>
  A component state that tracks \<^verbatim>\<open>alice\<close> and \<^verbatim>\<open>bob\<close> and has shown nothing yet, and
  the state after one cycle against \<open>env_demo\<close>.
\<close>

definition st_demo :: state where
  "st_demo = \<lparr>profiles = [''alice'', ''bob''], newProfiles = [], activities = [],
              errors = Map.empty, token = [], rateLimit = None\<rparr>"

definition record_x :: activity where
  "record_x = make_activity env_demo ''alice'' repo_x [commit_2, commit_1] \<lparr>public_repos = 7\<rparr>"

definition st_shown :: state where
  "st_shown = st_demo\<lparr>activities := [record_x], errors := [''bob'' \<mapsto> ''User bob not found''],
                     rateLimit := Some rl_demo\<rparr>"

text \<open>States that track other accounts.\<close>

definition st_three :: state where
  "st_three = st_demo\<lparr>profiles := [''alice'', ''carol'', ''dave'']\<rparr>"

definition st_proto :: state where
  "st_proto = st_demo\<lparr>profiles := [''__proto__'']\<rparr>"

text \<open>
  The input field holds the same name twice while nothing is tracked; the input field
  holds a tracked name, with blanks around it.
\<close>

definition st_typed :: state where
  "st_typed = \<lparr>profiles = [], newProfiles = ''octocat, octocat'', activities = [],
               errors = Map.empty, token = [], rateLimit = None\<rparr>"

definition st_again :: state where
  "st_again = st_demo\<lparr>newProfiles := '' bob ''\<rparr>"

text \<open>
  The service where both repositories of \<^verbatim>\<open>alice\<close> and the repository of \<^verbatim>\<open>carol\<close>
  have commits, and a state that tracks \<^verbatim>\<open>carol\<close>, \<^verbatim>\<open>bob\<close> and \<^verbatim>\<open>alice\<close>, in this
  order.
\<close>

definition commit_3 :: commit_json where
  "commit_3 = \<lparr>commit_message = ''third'', commit_author_date = ''2024-09-28T10:00:00Z'',
               commit_html_url = ''https://github.com/alice/y/commit/3''\<rparr>"

definition commit_4 :: commit_json where
  "commit_4 = \<lparr>commit_message = ''fourth'', commit_author_date = ''2024-09-29T08:30:00Z'',
               commit_html_url = ''https://github.com/carol/z/commit/4''\<rparr>"

definition env_busy :: env where
  "env_busy =
     env_demo\<lparr>fetch_commits := (\<lambda>h p n.
       if p = ''alice'' \<and> n = ''x'' then Returns (CommitArray [commit_2, commit_1])
       else if p = ''alice'' \<and> n = ''y'' then Returns (CommitArray [commit_3])
       else if p = ''carol'' \<and> n = ''z'' then Returns (CommitArray [commit_4])
       else Returns (CommitArray []))\<rparr>"

definition st_busy :: state where
  "st_busy = st_demo\<lparr>profiles := [''carol'', ''bob'', ''alice'']\<rparr>"

section \<open>The loops compute the contributions\<close>

lemma for_repos_eq:
  "for_repos e h p ud rs c =
     (first_failure e h p rs,
      c\<lparr>newActivities := newActivities c @ concat (map (record_of e h p ud) (reached e h p rs)),
        requests := requests c @ map (\<lambda>r. GetCommits p (repo_name r)) (attempted e h p rs)\<rparr>)"
proof (induction rs arbitrary: c)
  case Nil
  show ?case by (simp add: first_failure_def reached_def attempted_def)
next
  case (Cons r rs)
  show ?case
  proof (cases "fetch_commits e h p (repo_name r)")
    case (Throws m)
    then show ?thesis
      by (simp add: first_failure_def reached_def attempted_def throws_def)
  next
    case (Returns b)
    then show ?thesis
      using Cons.IH
      by (cases b)
         (simp_all add: first_failure_def reached_def attempted_def throws_def record_of_def)
  qed
qed

lemma for_profile_eq:
  "for_profile e h p c =
     c\<lparr>newActivities := newActivities c @ account_records e h p,
       newErrors := (case account_error e h p of
                       None \<Rightarrow> newErrors c
                     | Some m \<Rightarrow> obj_set (newErrors c) p m),
       requests := requests c @ account_requests e h p\<rparr>"
proof (cases "get_user e h p")
  case (Throws m)
  then show ?thesis
    by (simp add: for_profile_def account_records_def account_error_def account_requests_def)
next
  case (Returns ud)
  note u = this
  show ?thesis
  proof (cases "fetch_repos e h p")
    case (Throws m)
    with u show ?thesis
      by (simp add: for_profile_def account_records_def account_error_def account_requests_def)
  next
    case (Returns rs)
    with u show ?thesis
      by (cases "first_failure e h p rs")
         (simp_all add: for_profile_def account_records_def account_error_def
            account_requests_def for_repos_eq reached_def attempted_def)
  qed
qed


lemma for_profiles_eq:
  "for_profiles e h ps c =
     c\<lparr>newActivities := newActivities c @ concat (map (account_records e h) ps),
       newErrors := merged_errors e h ps (newErrors c),
       requests := requests c @ concat (map (account_requests e h) ps)\<rparr>"
proof (induction ps arbitrary: c)
  case Nil
  show ?case by (simp add: for_profiles_def merged_errors_def)
next
  case (Cons p ps)
  have step: "for_profiles e h (p # ps) c = for_profiles e h ps (for_profile e h p c)"
    by (simp add: for_profiles_def)
  have errs: "merged_errors e h ps
                (case account_error e h p of None \<Rightarrow> newErrors c
                 | Some m \<Rightarrow> obj_set (newErrors c) p m)
              = merged_errors e h (p # ps) (newErrors c)"
    by (rule ext) (auto simp: merged_errors_def obj_set_def split: option.splits)
  show ?case
    unfolding step Cons.IH for_profile_eq
    by (simp add: errs)
qed

lemma fetchData_pass:
  assumes "fetch_rate_limit e (headers_of (token st)) = Returns rl" and "remaining rl \<noteq> 0"
  shows "fetchData e st =
           (st\<lparr>rateLimit := Some rl,
               activities := concat (map (account_records e (headers_of (token st))) (profiles st)),
               errors := merged_errors e (headers_of (token st)) (profiles st) Map.empty\<rparr>,
            GetRateLimit # concat (map (account_requests e (headers_of (token st))) (profiles st)))"
  using assms by (simp add: fetchData_def for_profiles_eq Let_def)

section \<open>Which records a cycle publishes\<close>

lemma reached_subset: "set (reached e h p rs) \<subseteq> set rs"
  unfolding reached_def by (rule subsetI) (erule set_takeWhileD [THEN conjunct1])

lemma in_record_of:
  "a \<in> set (record_of e h p ud r) \<longleftrightarrow>
     (\<exists>cs. fetch_commits e h p (repo_name r) = Returns (CommitArray cs) \<and> cs \<noteq> []
           \<and> a = make_activity e p r cs ud)"
proof (cases "fetch_commits e h p (repo_name r)")
  case (Throws m)
  then show ?thesis by (simp add: record_of_def)
next
  case (Returns b)
  then show ?thesis by (cases b) (simp_all add: record_of_def)
qed


lemma in_account_records:
  "a \<in> set (account_records e h p) \<longleftrightarrow>
     (\<exists>ud rs r cs. get_user e h p = Returns ud \<and> fetch_repos e h p = Returns rs
        \<and> r \<in> set (reached e h p rs)
        \<and> fetch_commits e h p (repo_name r) = Returns (CommitArray cs) \<and> cs \<noteq> []
        \<and> a = make_activity e p r cs ud)"
proof (cases "get_user e h p")
  case (Throws m)
  then show ?thesis by (simp add: account_records_def)
next
  case (Returns ud)
  note u = this
  show ?thesis
  proof (cases "fetch_repos e h p")
    case (Throws m)
    with u show ?thesis by (simp add: account_records_def)
  next
    case (Returns rs)
    with u show ?thesis by (simp add: account_records_def in_record_of) blast
  qed
qed

lemma account_records_profile:
  assumes "a \<in> set (account_records e h p)"
  shows "profile a = p"
proof -
  from assms obtain ud r cs where "a = make_activity e p r cs ud"
    unfolding in_account_records by blast
  then show ?thesis by (simp add: make_activity_def)
qed

lemma in_cycle_activities:
  "a \<in> set (concat (map (account_records e h) ps)) \<longleftrightarrow>
     profile a \<in> set ps \<and> a \<in> set (account_records e h (profile a))"
proof
  assume "a \<in> set (concat (map (account_records e h) ps))"
  then obtain p where p: "p \<in> set ps" "a \<in> set (account_records e h p)" by auto
  with account_records_profile [OF p(2)]
  show "profile a \<in> set ps \<and> a \<in> set (account_records e h (profile a))" by simp
next
  assume "profile a \<in> set ps \<and> a \<in> set (account_records e h (profile a))"
  then show "a \<in> set (concat (map (account_records e h) ps))" by auto
qed

lemma reached_prefix:
  assumes "\<forall>x\<in>set pre. \<not> throws (fetch_commits e h p (repo_name x))"
    and "fetch_commits e h p (repo_name r) = Throws m"
  shows "reached e h p (pre @ r # post) = pre"
    and "attempted e h p (pre @ r # post) = pre @ [r]"
    and "first_failure e h p (pre @ r # post) = Some m"
proof -
  let ?P = "\<lambda>r. \<not> throws (fetch_commits e h p (repo_name r))"
  have r: "\<not> ?P r" using assms(2) by (simp add: throws_def)
  have t: "takeWhile ?P (pre @ r # post) = pre"
    using assms(1) r by (simp add: takeWhile_append2)
  have d: "dropWhile ?P (pre @ r # post) = r # post"
    using assms(1) r by (simp add: dropWhile_append2)
  show "reached e h p (pre @ r # post) = pre"
    unfolding reached_def by (rule t)
  show "attempted e h p (pre @ r # post) = pre @ [r]"
    unfolding attempted_def reached_def t d by simp
  show "first_failure e h p (pre @ r # post) = Some m"
    unfolding first_failure_def d using assms(2) by simp
qed

lemma reached_all:
  assumes "\<forall>x\<in>set rs. \<not> throws (fetch_commits e h p (repo_name x))"
  shows "reached e h p rs = rs" and "attempted e h p rs = rs" and "first_failure e h p rs = None"
proof -
  let ?P = "\<lambda>r. \<not> throws (fetch_commits e h p (repo_name r))"
  have t: "takeWhile ?P rs = rs" using assms by (simp add: takeWhile_eq_all_conv)
  have d: "dropWhile ?P rs = []" using assms by (simp add: dropWhile_eq_Nil_conv)
  show "reached e h p rs = rs" unfolding reached_def by (rule t)
  show "attempted e h p rs = rs" unfolding attempted_def reached_def t d by simp
  show "first_failure e h p rs = None" unfolding first_failure_def d by simp
qed

lemma no_commits_not_throws: "no_commits x \<Longrightarrow> \<not> throws x"
  by (cases x) (simp_all add: no_commits_def throws_def)

lemma record_of_no_commits:
  "no_commits (fetch_commits e h p (repo_name r)) \<Longrightarrow> record_of e h p ud r = []"
  by (cases "fetch_commits e h p (repo_name r)")
     (simp_all add: no_commits_def record_of_def split: commits_json.splits)

lemma published_errors:
  assumes "fetch_rate_limit e (headers_of (token st)) = Returns rl" and "remaining rl \<noteq> 0"
  shows "errors (fst (fetchData e st)) q =
           (if q \<in> set (profiles st) \<and> q \<noteq> ''__proto__''
            then account_error e (headers_of (token st)) q else None)"
  using assms by (simp add: fetchData_pass merged_errors_def)

lemma published_activities:
  assumes "fetch_rate_limit e (headers_of (token st)) = Returns rl" and "remaining rl \<noteq> 0"
  shows "a \<in> set (activities (fst (fetchData e st))) \<longleftrightarrow>
           profile a \<in> set (profiles st)
           \<and> a \<in> set (account_records e (headers_of (token st)) (profile a))"
proof -
  have "activities (fst (fetchData e st)) =
          concat (map (account_records e (headers_of (token st))) (profiles st))"
    using assms by (simp add: fetchData_pass)
  then show ?thesis by (simp only: in_cycle_activities)
qed

lemma published_requests:
  assumes "fetch_rate_limit e (headers_of (token st)) = Returns rl" and "remaining rl \<noteq> 0"
  shows "snd (fetchData e st) =
           GetRateLimit # concat (map (account_requests e (headers_of (token st))) (profiles st))"
  using assms by (simp add: fetchData_pass)

lemma commits_request_of:
  "GetCommits p n \<in> set (account_requests e h q) \<longleftrightarrow>
     q = p \<and> (\<exists>ud rs. get_user e h p = Returns ud \<and> fetch_repos e h p = Returns rs
                \<and> n \<in> repo_name ` set (attempted e h p rs))"
proof (cases "get_user e h q")
  case (Throws m)
  then show ?thesis by (auto simp: account_requests_def)
next
  case (Returns ud)
  note u = this
  show ?thesis
  proof (cases "fetch_repos e h q")
    case (Throws m)
    with u show ?thesis by (auto simp: account_requests_def)
  next
    case (Returns rs)
    with u show ?thesis by (auto simp: account_requests_def)
  qed
qed

lemma repos_request_of:
  "GetRepos p \<in> set (account_requests e h q) \<longleftrightarrow>
     q = p \<and> (\<exists>ud. get_user e h p = Returns ud)"
proof (cases "get_user e h q")
  case (Throws m)
  then show ?thesis by (auto simp: account_requests_def)
next
  case (Returns ud)
  then show ?thesis
    by (cases "fetch_repos e h q") (auto simp: account_requests_def)
qed

section \<open>The fields of the published records, in order\<close>

lemma record_of_fields:
  "map (\<lambda>a. (profile a, repo a, map (\<lambda>v. (message v, date v, commitUrl v)) (commits a)))
       (concat (map (record_of e h p ud) xs))
   = map (\<lambda>r. (p, repo_name r,
               map (\<lambda>c. (commit_message c, new_Date e (commit_author_date c), commit_html_url c))
                 (listed_commits e h p r)))
       (filter (\<lambda>r. listed_commits e h p r \<noteq> []) xs)"
proof (induction xs)
  case Nil
  show ?case by simp
next
  case (Cons r xs)
  show ?case
  proof (cases "fetch_commits e h p (repo_name r)")
    case (Throws m)
    with Cons.IH show ?thesis by (simp add: record_of_def listed_commits_def)
  next
    case (Returns b)
    show ?thesis
    proof (cases b)
      case ErrorObject
      with Returns Cons.IH show ?thesis by (simp add: record_of_def listed_commits_def)
    next
      case (CommitArray cs)
      with Returns Cons.IH show ?thesis
        by (simp add: record_of_def listed_commits_def make_activity_def view_commit_def
              comp_def)
    qed
  qed
qed

lemma account_records_fields:
  "map (\<lambda>a. (profile a, repo a, map (\<lambda>v. (message v, date v, commitUrl v)) (commits a)))
       (account_records e h p)
   = map (\<lambda>r. (p, repo_name r,
               map (\<lambda>c. (commit_message c, new_Date e (commit_author_date c), commit_html_url c))
                 (listed_commits e h p r)))
       (active_repos e h p)"
proof (cases "get_user e h p")
  case (Throws m)
  then show ?thesis by (simp add: account_records_def active_repos_def)
next
  case (Returns ud)
  note u = this
  show ?thesis
  proof (cases "fetch_repos e h p")
    case (Throws m)
    with u show ?thesis by (simp add: account_records_def active_repos_def)
  next
    case (Returns rs)
    with u show ?thesis
      by (simp only: account_records_def active_repos_def outcome.case record_of_fields)
  qed
qed

section \<open>Dates\<close>

lemma larger_NaN_right [simp]: "larger x NaN = NaN"
  by (cases x) simp_all

lemma fold_larger_NaN [simp]: "fold larger xs NaN = NaN"
  by (induction xs) simp_all

lemma fold_larger_Finite:
  "fold larger (map Finite ts) (Finite a) = Finite (Max (insert a (set ts)))"
proof (induction ts arbitrary: a)
  case Nil
  show ?case by simp
next
  case (Cons t ts)
  have "Max (insert (max t a) (set ts)) = Max (insert a (insert t (set ts)))"
  proof (cases "set ts = {}")
    case True
    then show ?thesis by (simp add: max.commute)
  next
    case False
    then show ?thesis by (simp add: max.commute max.left_commute max.assoc)
  qed
  then show ?case by (simp add: Cons.IH)
qed

lemma Math_max_Finite:
  "ts \<noteq> [] \<Longrightarrow> Math_max (map Finite ts) = Finite (Max (set ts))"
  by (cases ts) (simp_all add: Math_max_def fold_larger_Finite)

lemma Math_max_NaN: "NaN \<in> set xs \<Longrightarrow> Math_max xs = NaN"
proof -
  have "NaN \<in> set xs \<Longrightarrow> fold larger xs a = NaN" for a
    by (induction xs arbitrary: a) auto
  then show "NaN \<in> set xs \<Longrightarrow> Math_max xs = NaN"
    by (simp add: Math_max_def)
qed

lemma TimeClip_Max:
  assumes "ts \<noteq> []" and "\<forall>t\<in>set ts. TimeClip t = Some t"
  shows "TimeClip (Max (set ts)) = Some (Max (set ts))"
proof -
  have "Max (set ts) \<in> set ts" using assms(1) by (simp add: Max_in)
  then show ?thesis using assms(2) by blast
qed

lemma new_Date_clipped: "new_Date e s = Some t \<Longrightarrow> TimeClip t = Some t"
  by (auto simp: new_Date_def TimeClip_def split: option.splits if_splits)

lemma lastUpdated_valid:
  assumes "cs \<noteq> []" and "\<forall>c\<in>set cs. new_Date e (commit_author_date c) \<noteq> None"
  shows "lastUpdated (make_activity e p r cs ud) =
           Some (Max (set (map (\<lambda>c. the (new_Date e (commit_author_date c))) cs)))"
proof -
  let ?ts = "map (\<lambda>c. the (new_Date e (commit_author_date c))) cs"
  have eq: "map (\<lambda>c. valueOf (new_Date e (commit_author_date c))) cs = map Finite ?ts"
    using assms(2) by (auto simp: valueOf_def split: option.splits)
  have ne: "?ts \<noteq> []" using assms(1) by simp
  have clip: "\<forall>t\<in>set ?ts. TimeClip t = Some t"
  proof
    fix t assume "t \<in> set ?ts"
    then obtain c where c: "c \<in> set cs" and t: "t = the (new_Date e (commit_author_date c))"
      by auto
    from c assms(2) obtain y where y: "new_Date e (commit_author_date c) = Some y" by auto
    with t new_Date_clipped [OF y] show "TimeClip t = Some t" by simp
  qed
  show ?thesis
    by (simp only: make_activity_def activity.simps eq Math_max_Finite [OF ne]
          new_Date_number_def number.simps TimeClip_Max [OF ne clip])
qed

lemma lastUpdated_invalid:
  assumes "c \<in> set cs" and "new_Date e (commit_author_date c) = None"
  shows "lastUpdated (make_activity e p r cs ud) = None"
proof -
  have "NaN \<in> set (map (\<lambda>c. valueOf (new_Date e (commit_author_date c))) cs)"
    using assms by (force simp: valueOf_def)
  then show ?thesis
    by (simp add: make_activity_def Math_max_NaN new_Date_number_def)
qed

section \<open>A failed profile request\<close>

text \<open>
  An account whose profile request fails contributes its message and nothing else: no
  record, no further request; and the records and messages of the other accounts are
  those of a cycle that does not track it. The message is lost when the account is
  named \<^verbatim>\<open>__proto__\<close>.
\<close>

lemma profile_lookup_failure_isolated:
  assumes "fetch_rate_limit e (headers_of (token st)) = Returns rl" and "remaining rl \<noteq> 0"
    and "p \<in> set (profiles st)"
    and "get_user e (headers_of (token st)) p = Throws m"
  shows "errors (fst (fetchData e st)) p = (if p = ''__proto__'' then None else Some m)"
    and "\<forall>a\<in>set (activities (fst (fetchData e st))). profile a \<noteq> p"
    and "GetRepos p \<notin> set (snd (fetchData e st))"
    and "GetCommits p n \<notin> set (snd (fetchData e st))"
    and "activities (fst (fetchData e st))
           = activities (fst (fetchData e (st\<lparr>profiles := removeAll p (profiles st)\<rparr>)))"
    and "q \<noteq> p \<Longrightarrow> errors (fst (fetchData e st)) q
           = errors (fst (fetchData e (st\<lparr>profiles := removeAll p (profiles st)\<rparr>))) q"
proof -
  let ?h = "headers_of (token st)"
  let ?st = "st\<lparr>profiles := removeAll p (profiles st)\<rparr>"
  note gate = assms(1,2)
  have gate': "fetch_rate_limit e (headers_of (token ?st)) = Returns rl" "remaining rl \<noteq> 0"
    using gate by simp_all
  have none: "account_records e ?h p = []"
    using assms(4) by (simp add: account_records_def)
  have err: "account_error e ?h p = Some m"
    using assms(4) by (simp add: account_error_def)
  show "errors (fst (fetchData e st)) p = (if p = ''__proto__'' then None else Some m)"
    using assms(3) err by (simp add: published_errors [OF gate])
  show "\<forall>a\<in>set (activities (fst (fetchData e st))). profile a \<noteq> p"
    using none by (auto simp: published_activities [OF gate])
  show "GetRepos p \<notin> set (snd (fetchData e st))"
    using assms(4) by (auto simp: published_requests [OF gate] repos_request_of)
  show "GetCommits p n \<notin> set (snd (fetchData e st))"
    using assms(4) by (auto simp: published_requests [OF gate] commits_request_of)
  have "concat (map (account_records e ?h) ps)
          = concat (map (account_records e ?h) (removeAll p ps))" for ps
    using none by (induction ps) auto
  then show "activities (fst (fetchData e st)) = activities (fst (fetchData e ?st))"
    by (simp add: fetchData_pass [OF gate] fetchData_pass [OF gate'])
  show "errors (fst (fetchData e st)) q = errors (fst (fetchData e ?st)) q" if "q \<noteq> p"
    using that by (simp add: published_errors [OF gate] published_errors [OF gate'])
qed

section \<open>Adding accounts\<close>

lemma split_at_not_Nil: "split_at sep s \<noteq> []"
  by (induction s) (simp_all split: list.splits)

lemma profileList_fresh: "set (profileList st) \<inter> set (profiles st) = {}"
  by (auto simp: profileList_def)

lemma profiles_after_add: "profiles (handleAddProfiles st) = profiles st @ profileList st"
  by (simp add: handleAddProfiles_def)

lemma add_keeps_distinct:
  assumes "distinct (profiles st)"
    and "distinct (map trim (split_at CHR '','' (newProfiles st)))"
  shows "distinct (profiles (handleAddProfiles st))"
proof -
  have "distinct (profileList st)"
    unfolding profileList_def using assms(2) by (rule distinct_filter)
  with assms(1) profileList_fresh [of st] show ?thesis
    by (auto simp: profiles_after_add)
qed

section \<open>The polling effect\<close>

lemma consistent_mount: "consistent mount"
  by (simp add: consistent_def mount_def)

lemma run_cleanup_clears:
  assumes "consistent s"
  shows "intervals (run_cleanup s) = []" and "pending_cleanup (run_cleanup s) = None"
    and "calls (run_cleanup s) = calls s" and "next_handle (run_cleanup s) = next_handle s"
    and "last_deps (run_cleanup s) = last_deps s"
  using assms
  by (auto simp: consistent_def run_cleanup_def clearInterval_def split: option.splits)

lemma effect_arms:
  assumes "intervals s = []" and "ps \<noteq> []"
  shows "intervals (effect ps tok s) = [(next_handle s, 100000, (ps, tok))]"
    and "pending_cleanup (effect ps tok s) = Some (next_handle s)"
    and "calls (effect ps tok s) = calls s @ [(ps, tok)]"
    and "last_deps (effect ps tok s) = last_deps s"
  using assms by (simp_all add: effect_def setInterval_def)

lemma effect_idle:
  shows "intervals (effect [] tok s) = intervals s"
    and "pending_cleanup (effect [] tok s) = None"
    and "calls (effect [] tok s) = calls s"
    and "last_deps (effect [] tok s) = last_deps s"
  by (simp_all add: effect_def)

lemma commit_changed:
  assumes "consistent s" and "last_deps s \<noteq> Some (ps, tok)"
  shows "ps \<noteq> [] \<Longrightarrow> intervals (step s (Commit ps tok)) = [(next_handle s, 100000, (ps, tok))]"
    and "ps \<noteq> [] \<Longrightarrow> pending_cleanup (step s (Commit ps tok)) = Some (next_handle s)"
    and "ps \<noteq> [] \<Longrightarrow> calls (step s (Commit ps tok)) = calls s @ [(ps, tok)]"
    and "ps = [] \<Longrightarrow> intervals (step s (Commit ps tok)) = []"
    and "ps = [] \<Longrightarrow> pending_cleanup (step s (Commit ps tok)) = None"
    and "ps = [] \<Longrightarrow> calls (step s (Commit ps tok)) = calls s"
    and "last_deps (step s (Commit ps tok)) = Some (ps, tok)"
proof -
  let ?s = "(run_cleanup s)\<lparr>last_deps := Some (ps, tok)\<rparr>"
  have st: "step s (Commit ps tok) = effect ps tok ?s"
    using assms(2) by simp
  have c: "intervals ?s = []" "calls ?s = calls s" "next_handle ?s = next_handle s"
      "last_deps ?s = Some (ps, tok)"
    using run_cleanup_clears [OF assms(1)] by simp_all
  show "ps \<noteq> [] \<Longrightarrow> intervals (step s (Commit ps tok)) = [(next_handle s, 100000, (ps, tok))]"
    unfolding st using effect_arms(1) [OF c(1), of ps tok] c by simp
  show "ps \<noteq> [] \<Longrightarrow> pending_cleanup (step s (Commit ps tok)) = Some (next_handle s)"
    unfolding st using effect_arms(2) [OF c(1), of ps tok] c by simp
  show "ps \<noteq> [] \<Longrightarrow> calls (step s (Commit ps tok)) = calls s @ [(ps, tok)]"
    unfolding st using effect_arms(3) [OF c(1), of ps tok] c by simp
  show "ps = [] \<Longrightarrow> intervals (step s (Commit ps tok)) = []"
    unfolding st using c by (simp add: effect_idle)
  show "ps = [] \<Longrightarrow> pending_cleanup (step s (Commit ps tok)) = None"
    unfolding st by (simp add: effect_idle)
  show "ps = [] \<Longrightarrow> calls (step s (Commit ps tok)) = calls s"
    unfolding st using c by (simp add: effect_idle)
  show "last_deps (step s (Commit ps tok)) = Some (ps, tok)"
    unfolding st using c by (cases "ps = []") (simp_all add: effect_def setInterval_def)
qed

lemma consistent_step:
  assumes "consistent s"
  shows "consistent (step s ev)"
proof (cases ev)
  case (Commit ps tok)
  show ?thesis
  proof (cases "last_deps s = Some (ps, tok)")
    case True
    with assms Commit show ?thesis by simp
  next
    case False
    note cc = commit_changed [OF assms False]
    show ?thesis
    proof (cases "ps = []")
      case True
      with cc Commit show ?thesis by (simp add: consistent_def)
    next
      case False
      with cc Commit show ?thesis by (simp add: consistent_def)
    qed
  qed
next
  case (Fire i)
  with assms show ?thesis
    by (auto simp: consistent_def split: option.splits)
next
  case Unmount
  with run_cleanup_clears [OF assms] show ?thesis
    by (simp add: consistent_def)
qed

lemma consistent_run: "consistent s \<Longrightarrow> consistent (run s evs)"
  unfolding run_def by (induction evs arbitrary: s) (simp_all add: consistent_step)

lemma fire_disarmed:
  assumes "intervals s = []"
  shows "run s (map Fire hs) = s"
  unfolding run_def using assms by (induction hs) simp_all

lemma fire_armed:
  assumes "consistent s" and "pending_cleanup s = Some i"
  shows "calls (step s (Fire i)) = calls s @ [the (last_deps s)]"
  using assms by (auto simp: consistent_def split: option.splits)

section \<open>Unfolding the examples\<close>

lemmas demo_defs = env_demo_def env_quota_def env_offline_def env_broken_def st_demo_def
  st_shown_def st_three_def st_proto_def st_typed_def st_again_def rl_demo_def repo_x_def repo_y_def repo_z_def repo_w_def
  commit_1_def commit_2_def
  demo_parse_def record_x_def

lemmas run_defs = fetchData_def for_profiles_def for_profile_def get_user_def headers_of_def
  obj_set_def Let_def

text \<open>
  The scenario of the specification: \<^verbatim>\<open>alice\<close> has activity in \<^verbatim>\<open>x\<close> and none in
  \<^verbatim>\<open>y\<close>, the profile request for \<^verbatim>\<open>bob\<close> is answered 404.
\<close>

lemma demo_cycle:
  "fetchData env_demo st_demo =
     (st_shown,
      [GetRateLimit, GetUser ''alice'', GetRepos ''alice'', GetCommits ''alice'' ''x'',
       GetCommits ''alice'' ''y'', GetUser ''bob''])"
  by (simp add: run_defs demo_defs)

lemma demo_gate:
  "fetch_rate_limit env_demo (headers_of (token st_demo)) = Returns rl_demo"
  "remaining rl_demo \<noteq> 0"
  by (simp_all add: env_demo_def rl_demo_def)

lemma record_x_fields:
  "profile record_x = ''alice''" "repo record_x = ''x''" "repoCount record_x = 7"
  "lastUpdated record_x = Some 1727598600000"
  "map date (commits record_x) = [Some 1727598600000, Some 1727517600000]"
  by (simp_all add: record_x_def make_activity_def view_commit_def new_Date_def TimeClip_def
        Math_max_def valueOf_def new_Date_number_def demo_defs)

section \<open>The claims\<close>

text \<open>
  Claim C1, as the source has it. When the commit request for a repository \<open>r\<close> of a
  tracked account \<open>p\<close> throws, the \<^verbatim>\<open>catch\<close> of line 76 records the message for \<open>p\<close>
  and the loop over the repositories of \<open>p\<close> is left: no commit request is issued
  for the repositories after \<open>r\<close>. The records pushed for the repositories before
  \<open>r\<close> stay in \<^verbatim>\<open>newActivities\<close>, which line 80 publishes: nothing is discarded.
  The profile of \<open>p\<close> has been found when a commit request is made, and GitHub has no
  account named \<^verbatim>\<open>__proto__\<close>, the one key the \<^verbatim>\<open>catch\<close> cannot write.
\<close>

theorem commit_failure_keeps_earlier_records:
  assumes "fetch_rate_limit e (headers_of (token st)) = Returns rl" and "remaining rl \<noteq> 0"
    and "p \<in> set (profiles st)" and "p \<noteq> ''__proto__''"
    and "get_user e (headers_of (token st)) p = Returns ud"
    and "fetch_repos e (headers_of (token st)) p = Returns (pre @ r # post)"
    and "\<forall>x\<in>set pre. \<not> throws (fetch_commits e (headers_of (token st)) p (repo_name x))"
    and "fetch_commits e (headers_of (token st)) p (repo_name r) = Throws m"
  shows "errors (fst (fetchData e st)) p = Some m
     \<and> set (filter (\<lambda>a. profile a = p) (activities (fst (fetchData e st))))
         = set (concat (map (record_of e (headers_of (token st)) p ud) pre))
     \<and> (\<forall>x\<in>set post. repo_name x \<notin> repo_name ` set (pre @ [r]) \<longrightarrow>
           GetCommits p (repo_name x) \<notin> set (snd (fetchData e st)))"
proof -
  let ?h = "headers_of (token st)"
  note gate = assms(1,2)
  note rp = reached_prefix [OF assms(7,8), of post]
  have err: "account_error e ?h p = Some m"
    using assms(5,6) by (simp add: account_error_def rp)
  have recs: "account_records e ?h p = concat (map (record_of e ?h p ud) pre)"
    using assms(5,6) by (simp add: account_records_def rp)
  have one: "errors (fst (fetchData e st)) p = Some m"
    using assms(3,4) err by (simp add: published_errors [OF gate])
  have two: "set (filter (\<lambda>a. profile a = p) (activities (fst (fetchData e st))))
               = set (account_records e ?h p)"
  proof (rule set_eqI)
    fix a
    show "a \<in> set (filter (\<lambda>a. profile a = p) (activities (fst (fetchData e st))))
            \<longleftrightarrow> a \<in> set (account_records e ?h p)"
      using assms(3) account_records_profile [of a e ?h p]
      by (auto simp: published_activities [OF gate])
  qed
  have three: "GetCommits p (repo_name x) \<notin> set (snd (fetchData e st))"
    if "x \<in> set post" and "repo_name x \<notin> repo_name ` set (pre @ [r])" for x
  proof
    assume "GetCommits p (repo_name x) \<in> set (snd (fetchData e st))"
    then obtain q where "GetCommits p (repo_name x) \<in> set (account_requests e ?h q)"
      by (auto simp: published_requests [OF gate])
    then have "repo_name x \<in> repo_name ` set (attempted e ?h p (pre @ r # post))"
      using assms(5,6) by (auto simp: commits_request_of)
    with that(2) show False by (simp add: rp)
  qed
  from one two three show ?thesis by (simp add: recs)
qed

text \<open>
  On the example: of the repositories \<^verbatim>\<open>x\<close>, \<^verbatim>\<open>y\<close>, \<^verbatim>\<open>w\<close> of \<^verbatim>\<open>alice\<close>, the commit
  request for \<^verbatim>\<open>y\<close> fails.
\<close>

theorem commit_failure_keeps_earlier_records_witness:
  "fetch_rate_limit env_broken (headers_of (token st_demo)) = Returns rl_demo
   \<and> remaining rl_demo \<noteq> 0
   \<and> ''alice'' \<in> set (profiles st_demo)
   \<and> get_user env_broken (headers_of (token st_demo)) ''alice'' = Returns \<lparr>public_repos = 7\<rparr>
   \<and> fetch_repos env_broken (headers_of (token st_demo)) ''alice''
       = Returns ([repo_x] @ repo_y # [repo_w])
   \<and> \<not> throws (fetch_commits env_broken (headers_of (token st_demo)) ''alice'' (repo_name repo_x))
   \<and> fetch_commits env_broken (headers_of (token st_demo)) ''alice'' (repo_name repo_y)
       = Throws ''Failed to fetch''
   \<and> errors (fst (fetchData env_broken st_demo)) ''alice'' = Some ''Failed to fetch''
   \<and> set (filter (\<lambda>a. profile a = ''alice'') (activities (fst (fetchData env_broken st_demo))))
       = {make_activity env_broken ''alice'' repo_x [commit_2, commit_1] \<lparr>public_repos = 7\<rparr>}
   \<and> GetCommits ''alice'' ''w'' \<notin> set (snd (fetchData env_broken st_demo))"
proof -
  let ?h = "headers_of (token st_demo)"
  have g: "fetch_rate_limit env_broken ?h = Returns rl_demo" "remaining rl_demo \<noteq> 0"
    by (simp_all add: env_broken_def env_demo_def rl_demo_def)
  have a: "''alice'' \<in> set (profiles st_demo)" "''alice'' \<noteq> ''__proto__''"
    by (simp_all add: st_demo_def)
  have u: "get_user env_broken ?h ''alice'' = Returns \<lparr>public_repos = 7\<rparr>"
    by (simp add: get_user_def env_broken_def env_demo_def)
  have rs: "fetch_repos env_broken ?h ''alice'' = Returns ([repo_x] @ repo_y # [repo_w])"
    by (simp add: env_broken_def)
  have x: "\<forall>r\<in>set [repo_x].
             \<not> throws (fetch_commits env_broken ?h ''alice'' (repo_name r))"
    by (simp add: throws_def env_broken_def env_demo_def repo_x_def)
  have y: "fetch_commits env_broken ?h ''alice'' (repo_name repo_y) = Throws ''Failed to fetch''"
    by (simp add: env_broken_def repo_y_def)
  have rec: "record_of env_broken ?h ''alice'' \<lparr>public_repos = 7\<rparr> repo_x
               = [make_activity env_broken ''alice'' repo_x [commit_2, commit_1] \<lparr>public_repos = 7\<rparr>]"
    by (simp add: record_of_def env_broken_def env_demo_def repo_x_def)
  have w: "repo_w \<in> set [repo_w]" "repo_name repo_w = ''w''"
      "repo_name repo_w \<notin> repo_name ` set ([repo_x] @ [repo_y])"
    by (simp_all add: repo_w_def repo_x_def repo_y_def)
  from commit_failure_keeps_earlier_records [OF g a u rs x y]
  have "errors (fst (fetchData env_broken st_demo)) ''alice'' = Some ''Failed to fetch''"
    and "set (filter (\<lambda>a. profile a = ''alice'') (activities (fst (fetchData env_broken st_demo))))
           = set (concat (map (record_of env_broken ?h ''alice'' \<lparr>public_repos = 7\<rparr>) [repo_x]))"
    and "\<forall>x\<in>set [repo_w]. repo_name x \<notin> repo_name ` set ([repo_x] @ [repo_y]) \<longrightarrow>
           GetCommits ''alice'' (repo_name x) \<notin> set (snd (fetchData env_broken st_demo))"
    by blast+
  with g a u rs x y rec w show ?thesis by simp
qed

text \<open>
  The claim as it was stated, that the records gathered for the account are
  discarded, fails there: the commit request for \<^verbatim>\<open>alice/y\<close> throws, the message is
  recorded for \<^verbatim>\<open>alice\<close>, and the published records still hold the one of
  \<^verbatim>\<open>alice/x\<close>.
\<close>

theorem commit_failure_discards_counterexample:
  "fetch_commits env_broken (headers_of (token st_demo)) ''alice'' ''y'' = Throws ''Failed to fetch''
   \<and> snd (fetchData env_broken st_demo) =
       [GetRateLimit, GetUser ''alice'', GetRepos ''alice'', GetCommits ''alice'' ''x'',
        GetCommits ''alice'' ''y'', GetUser ''bob'']
   \<and> errors (fst (fetchData env_broken st_demo)) ''alice'' = Some ''Failed to fetch''
   \<and> map profile (activities (fst (fetchData env_broken st_demo))) = [''alice'']
   \<and> map repo (activities (fst (fetchData env_broken st_demo))) = [''x'']"
  by (simp add: run_defs demo_defs make_activity_def)

text \<open>
  Claim C2. If the rate-limit check succeeds and reports \<^verbatim>\<open>remaining === 0\<close>, the run
  ends at line 27: the only request issued is the rate-limit request, so no request
  about an account is made; the state after the run is the state before it with
  \<^verbatim>\<open>rateLimit\<close> set to the reported status and \<^verbatim>\<open>errors\<close> replaced by the single
  entry \<^verbatim>\<open>global\<close>; in particular \<^verbatim>\<open>activities\<close> is the snapshot shown before.
\<close>

theorem quota_exhausted_keeps_snapshot:
  assumes "fetch_rate_limit e (headers_of (token st)) = Returns rl" and "remaining rl = 0"
  shows "fetchData e st =
           (st\<lparr>rateLimit := Some rl,
               errors := [''global'' \<mapsto>
                 ''API rate limit exceeded. Please wait or add a Personal Access Token.'']\<rparr>,
            [GetRateLimit])
         \<and> activities (fst (fetchData e st)) = activities st"
  using assms by (simp add: fetchData_def)

text \<open>
  On the example: the quota is used up while the records of the last cycle are shown.
\<close>

theorem quota_exhausted_keeps_snapshot_witness:
  "fetch_rate_limit env_quota (headers_of (token st_shown)) = Returns (rl_demo\<lparr>remaining := 0\<rparr>)
   \<and> remaining (rl_demo\<lparr>remaining := 0\<rparr>) = 0
   \<and> snd (fetchData env_quota st_shown) = [GetRateLimit]
   \<and> activities (fst (fetchData env_quota st_shown)) = [record_x]
   \<and> rateLimit (fst (fetchData env_quota st_shown)) = Some (rl_demo\<lparr>remaining := 0\<rparr>)
   \<and> errors (fst (fetchData env_quota st_shown)) ''bob'' = None"
proof -
  have h1: "fetch_rate_limit env_quota (headers_of (token st_shown)) = Returns (rl_demo\<lparr>remaining := 0\<rparr>)"
    by (simp add: env_quota_def)
  have h2: "remaining (rl_demo\<lparr>remaining := 0\<rparr>) = 0" by simp
  show ?thesis
    using h1 h2 quota_exhausted_keeps_snapshot [OF h1 h2]
    by (simp add: st_shown_def)
qed

text \<open>
  Claim C3. If the rate-limit request fails (\<^verbatim>\<open>fetch\<close> rejects, or the body cannot be
  read as a rate-limit status, which is how a non-success answer of GitHub shows), the
  run ends at line 31: only the rate-limit request is issued, no account is processed,
  and \<^verbatim>\<open>errors\<close> is replaced by the single entry \<^verbatim>\<open>global\<close> holding the message;
  nothing else of the state changes. Likewise, when the quota is used up, \<^verbatim>\<open>errors\<close>
  is replaced as a whole by the one global message.
\<close>

theorem rate_limit_check_failure_is_global:
  "(fetch_rate_limit e (headers_of (token st)) = Throws m \<longrightarrow>
      fetchData e st =
        (st\<lparr>errors := [''global'' \<mapsto> ''Error checking rate limit: '' @ m]\<rparr>, [GetRateLimit]))
   \<and> (fetch_rate_limit e (headers_of (token st)) = Returns rl \<and> remaining rl = 0 \<longrightarrow>
        errors (fst (fetchData e st)) =
          [''global'' \<mapsto>
             ''API rate limit exceeded. Please wait or add a Personal Access Token.'']
        \<and> snd (fetchData e st) = [GetRateLimit])"
  by (simp add: fetchData_def)

text \<open>On the examples: the service cannot be reached; the quota is used up.\<close>

theorem rate_limit_check_failure_is_global_witness:
  "fetch_rate_limit env_offline (headers_of (token st_shown)) = Throws ''Failed to fetch''
   \<and> snd (fetchData env_offline st_shown) = [GetRateLimit]
   \<and> errors (fst (fetchData env_offline st_shown)) =
       [''global'' \<mapsto> ''Error checking rate limit: Failed to fetch'']
   \<and> fetch_rate_limit env_quota (headers_of (token st_shown)) = Returns (rl_demo\<lparr>remaining := 0\<rparr>)
   \<and> remaining (rl_demo\<lparr>remaining := 0\<rparr>) = 0
   \<and> errors (fst (fetchData env_quota st_shown)) =
       [''global'' \<mapsto>
          ''API rate limit exceeded. Please wait or add a Personal Access Token.'']"
proof -
  have h1: "fetch_rate_limit env_offline (headers_of (token st_shown)) = Throws ''Failed to fetch''"
    by (simp add: env_offline_def)
  have h2: "fetch_rate_limit env_quota (headers_of (token st_shown)) = Returns (rl_demo\<lparr>remaining := 0\<rparr>)
            \<and> remaining (rl_demo\<lparr>remaining := 0\<rparr>) = 0"
    by (simp add: env_quota_def)
  show ?thesis
    using h1 h2
      rate_limit_check_failure_is_global [of env_offline st_shown "''Failed to fetch''" rl_demo]
      rate_limit_check_failure_is_global [of env_quota st_shown "[]" "rl_demo\<lparr>remaining := 0\<rparr>"]
    by simp
qed

text \<open>
  Claim C4. A repository of a tracked account that the loop reaches and whose commit
  listing is a non-empty array has its record published; and every published record
  was built from such a repository of its account. Its \<^verbatim>\<open>repoCount\<close> is the
  \<^verbatim>\<open>public_repos\<close> of the account's profile, whatever the number of repositories
  with activity. Its \<^verbatim>\<open>lastUpdated\<close> is the largest author date of the commits
  returned for that repository; should one of the dates not parse, it is the invalid
  date, as \<^verbatim>\<open>Math.max\<close> then yields \<^verbatim>\<open>NaN\<close>.
\<close>

theorem activity_record_fields:
  assumes "fetch_rate_limit e (headers_of (token st)) = Returns rl" and "remaining rl \<noteq> 0"
  shows "(p \<in> set (profiles st)
          \<and> get_user e (headers_of (token st)) p = Returns ud
          \<and> fetch_repos e (headers_of (token st)) p = Returns rs
          \<and> r \<in> set (reached e (headers_of (token st)) p rs)
          \<and> fetch_commits e (headers_of (token st)) p (repo_name r) = Returns (CommitArray cs)
          \<and> cs \<noteq> []
        \<longrightarrow> make_activity e p r cs ud \<in> set (activities (fst (fetchData e st))))
     \<and> (a \<in> set (activities (fst (fetchData e st))) \<longrightarrow>
          (\<exists>ud rs r cs.
             profile a \<in> set (profiles st)
             \<and> get_user e (headers_of (token st)) (profile a) = Returns ud
             \<and> fetch_repos e (headers_of (token st)) (profile a) = Returns rs
             \<and> r \<in> set rs \<and> repo a = repo_name r
             \<and> fetch_commits e (headers_of (token st)) (profile a) (repo a)
                 = Returns (CommitArray cs)
             \<and> cs \<noteq> []
             \<and> commits a = map (view_commit e) cs
             \<and> repoCount a = public_repos ud
             \<and> lastUpdated a =
                 (if \<forall>c\<in>set cs. date (view_commit e c) \<noteq> None
                  then Some (Max (set (map (\<lambda>c. the (date (view_commit e c))) cs)))
                  else None)))"
proof -
  let ?h = "headers_of (token st)"
  let ?acts = "activities (fst (fetchData e st))"
  note pa = published_activities [OF assms]
  have built: "make_activity e p r cs ud \<in> set ?acts"
    if "p \<in> set (profiles st)" "get_user e ?h p = Returns ud" "fetch_repos e ?h p = Returns rs"
      "r \<in> set (reached e ?h p rs)"
      "fetch_commits e ?h p (repo_name r) = Returns (CommitArray cs)" "cs \<noteq> []"
  proof -
    have m: "make_activity e p r cs ud \<in> set (account_records e ?h p)"
      unfolding in_account_records using that(2-6) by blast
    have "profile (make_activity e p r cs ud) = p"
      by (simp add: make_activity_def)
    with m that(1) show ?thesis unfolding pa by simp
  qed
  have fields: "\<exists>ud rs r cs.
             profile a \<in> set (profiles st)
             \<and> get_user e ?h (profile a) = Returns ud
             \<and> fetch_repos e ?h (profile a) = Returns rs
             \<and> r \<in> set rs \<and> repo a = repo_name r
             \<and> fetch_commits e ?h (profile a) (repo a) = Returns (CommitArray cs)
             \<and> cs \<noteq> []
             \<and> commits a = map (view_commit e) cs
             \<and> repoCount a = public_repos ud
             \<and> lastUpdated a =
                 (if \<forall>c\<in>set cs. date (view_commit e c) \<noteq> None
                  then Some (Max (set (map (\<lambda>c. the (date (view_commit e c))) cs)))
                  else None)"
    if "a \<in> set ?acts"
  proof -
    define p' where "p' = profile a"
    from that have p: "p' \<in> set (profiles st)" and "a \<in> set (account_records e ?h p')"
      unfolding p'_def pa by simp_all
    then obtain ud rs r cs where
      u: "get_user e ?h p' = Returns ud" and
      rs: "fetch_repos e ?h p' = Returns rs" and
      r: "r \<in> set (reached e ?h p' rs)" and
      cs: "fetch_commits e ?h p' (repo_name r) = Returns (CommitArray cs)" "cs \<noteq> []" and
      a: "a = make_activity e p' r cs ud"
      unfolding in_account_records by blast
    have rin: "r \<in> set rs" using r reached_subset by blast
    have nm: "repo a = repo_name r"
      unfolding a by (simp add: make_activity_def)
    have cm: "commits a = map (view_commit e) cs"
      unfolding a by (simp add: make_activity_def)
    have rc: "repoCount a = public_repos ud"
      unfolding a by (simp add: make_activity_def)
    have lu: "lastUpdated a =
                 (if \<forall>c\<in>set cs. date (view_commit e c) \<noteq> None
                  then Some (Max (set (map (\<lambda>c. the (date (view_commit e c))) cs)))
                  else None)"
    proof (cases "\<forall>c\<in>set cs. new_Date e (commit_author_date c) \<noteq> None")
      case True
      then have "lastUpdated (make_activity e p' r cs ud) =
             Some (Max (set (map (\<lambda>c. the (new_Date e (commit_author_date c))) cs)))"
        using cs(2) by (rule lastUpdated_valid [rotated])
      with True show ?thesis unfolding a by (simp add: view_commit_def)
    next
      case False
      then obtain c where "c \<in> set cs" "new_Date e (commit_author_date c) = None" by blast
      then have "lastUpdated (make_activity e p' r cs ud) = None"
        by (rule lastUpdated_invalid)
      with False show ?thesis unfolding a by (simp add: view_commit_def)
    qed
    from cs(1) nm have cs': "fetch_commits e ?h p' (repo a) = Returns (CommitArray cs)"
      by simp
    from p u rs rin nm cs' cs(2) cm rc lu show ?thesis
      unfolding p'_def
      by (intro exI [of _ ud] exI [of _ rs] exI [of _ r] exI [of _ cs]) simp
  qed
  from built fields show ?thesis by blast
qed

text \<open>
  On the example: \<^verbatim>\<open>alice/x\<close> has commits of two dates, so its record is published,
  with the later date and the count of the profile of \<^verbatim>\<open>alice\<close>.
\<close>

theorem activity_record_fields_witness:
  "fetch_rate_limit env_demo (headers_of (token st_demo)) = Returns rl_demo
   \<and> remaining rl_demo \<noteq> 0
   \<and> ''alice'' \<in> set (profiles st_demo)
   \<and> get_user env_demo (headers_of (token st_demo)) ''alice'' = Returns \<lparr>public_repos = 7\<rparr>
   \<and> fetch_repos env_demo (headers_of (token st_demo)) ''alice'' = Returns [repo_x, repo_y]
   \<and> repo_x \<in> set (reached env_demo (headers_of (token st_demo)) ''alice'' [repo_x, repo_y])
   \<and> fetch_commits env_demo (headers_of (token st_demo)) ''alice'' (repo_name repo_x)
       = Returns (CommitArray [commit_2, commit_1])
   \<and> record_x \<in> set (activities (fst (fetchData env_demo st_demo)))
   \<and> (\<exists>ud rs r cs.
         get_user env_demo (headers_of (token st_demo)) (profile record_x) = Returns ud
         \<and> fetch_repos env_demo (headers_of (token st_demo)) (profile record_x) = Returns rs
         \<and> r \<in> set rs \<and> repo record_x = repo_name r
         \<and> fetch_commits env_demo (headers_of (token st_demo)) (profile record_x) (repo record_x)
             = Returns (CommitArray cs)
         \<and> cs \<noteq> []
         \<and> repoCount record_x = public_repos ud
         \<and> lastUpdated record_x
             = Some (Max (set (map (\<lambda>c. the (date (view_commit env_demo c))) cs))))
   \<and> repoCount record_x = 7
   \<and> lastUpdated record_x = Some 1727598600000"
proof -
  let ?h = "headers_of (token st_demo)"
  note inst = activity_record_fields [OF demo_gate]
  have h: "''alice'' \<in> set (profiles st_demo)"
      "get_user env_demo ?h ''alice'' = Returns \<lparr>public_repos = 7\<rparr>"
      "fetch_repos env_demo ?h ''alice'' = Returns [repo_x, repo_y]"
      "repo_x \<in> set (reached env_demo ?h ''alice'' [repo_x, repo_y])"
      "fetch_commits env_demo ?h ''alice'' (repo_name repo_x)
         = Returns (CommitArray [commit_2, commit_1])"
      "[commit_2, commit_1] \<noteq> []"
    by (simp_all add: st_demo_def get_user_def env_demo_def reached_def throws_def repo_x_def)
  from inst [of "''alice''" "\<lparr>public_repos = 7\<rparr>" "[repo_x, repo_y]" repo_x "[commit_2, commit_1]"] h
  have m: "record_x \<in> set (activities (fst (fetchData env_demo st_demo)))"
    unfolding record_x_def by blast
  with inst [of _ _ _ _ _ record_x]
  obtain ud rs r cs where
    f: "get_user env_demo ?h (profile record_x) = Returns ud"
       "fetch_repos env_demo ?h (profile record_x) = Returns rs"
       "r \<in> set rs" "repo record_x = repo_name r"
       "fetch_commits env_demo ?h (profile record_x) (repo record_x) = Returns (CommitArray cs)"
       "cs \<noteq> []" "repoCount record_x = public_repos ud" and
    l: "lastUpdated record_x =
               (if \<forall>c\<in>set cs. date (view_commit env_demo c) \<noteq> None
                then Some (Max (set (map (\<lambda>c. the (date (view_commit env_demo c))) cs)))
                else None)"
    by blast
  from l have l': "lastUpdated record_x
      = Some (Max (set (map (\<lambda>c. the (date (view_commit env_demo c))) cs)))"
    by (simp add: record_x_fields split: if_splits)
  from f l' have "\<exists>ud rs r cs.
         get_user env_demo ?h (profile record_x) = Returns ud
         \<and> fetch_repos env_demo ?h (profile record_x) = Returns rs
         \<and> r \<in> set rs \<and> repo record_x = repo_name r
         \<and> fetch_commits env_demo ?h (profile record_x) (repo record_x) = Returns (CommitArray cs)
         \<and> cs \<noteq> []
         \<and> repoCount record_x = public_repos ud
         \<and> lastUpdated record_x
             = Some (Max (set (map (\<lambda>c. the (date (view_commit env_demo c))) cs)))"
    by blast
  with demo_gate h m show ?thesis by (simp add: record_x_fields)
qed

text \<open>
  Claim C5 at the tracked account \<^verbatim>\<open>__proto__\<close>. GitHub answers the profile request
  with 404, line 38 throws, and line 77 assigns the message to
  \<^verbatim>\<open>newErrors["__proto__"]\<close>, which creates no property: the cycle publishes no error
  entry for the account. For every other account name the claim holds
  (\<open>profile_lookup_failure_isolated\<close>).
\<close>

theorem proto_error_is_lost:
  "get_user env_demo (headers_of (token st_proto)) ''__proto__''
     = Throws ''User __proto__ not found''
   \<and> snd (fetchData env_demo st_proto) = [GetRateLimit, GetUser ''__proto__'']
   \<and> activities (fst (fetchData env_demo st_proto)) = []
   \<and> errors (fst (fetchData env_demo st_proto)) = Map.empty"
  by (simp add: run_defs demo_defs)

text \<open>
  Claim C6. Every published record holds at least one commit, and no record is
  published for a repository whose commit listing has no qualifying commit. An account
  with repositories, none of which has a qualifying commit, gets no record and no
  error entry. A tracked account with an empty repositories listing gets the entry
  \<^verbatim>\<open>No public repositories found for\<close> followed by its name, and no record. The
  profile of that account has been found, and GitHub has no account named
  \<^verbatim>\<open>__proto__\<close>, the one key line 46 cannot write.
\<close>

theorem no_record_without_commits:
  assumes "fetch_rate_limit e (headers_of (token st)) = Returns rl" and "remaining rl \<noteq> 0"
  shows "(\<forall>a\<in>set (activities (fst (fetchData e st))). commits a \<noteq> [])
     \<and> (no_commits (fetch_commits e (headers_of (token st)) p n) \<longrightarrow>
          (\<forall>a\<in>set (activities (fst (fetchData e st))). \<not> (profile a = p \<and> repo a = n)))
     \<and> (get_user e (headers_of (token st)) q = Returns ud
          \<and> fetch_repos e (headers_of (token st)) q = Returns rs \<and> rs \<noteq> []
          \<and> (\<forall>r\<in>set rs. no_commits (fetch_commits e (headers_of (token st)) q (repo_name r)))
        \<longrightarrow> (\<forall>a\<in>set (activities (fst (fetchData e st))). profile a \<noteq> q)
            \<and> errors (fst (fetchData e st)) q = None)
     \<and> (z \<in> set (profiles st) \<and> z \<noteq> ''__proto__''
          \<and> get_user e (headers_of (token st)) z = Returns ud'
          \<and> fetch_repos e (headers_of (token st)) z = Returns []
        \<longrightarrow> errors (fst (fetchData e st)) z = Some (''No public repositories found for '' @ z)
            \<and> (\<forall>a\<in>set (activities (fst (fetchData e st))). profile a \<noteq> z))"
proof -
  let ?h = "headers_of (token st)"
  let ?acts = "activities (fst (fetchData e st))"
  note pa = published_activities [OF assms]
  note pe = published_errors [OF assms]
  have built: "\<exists>ud rs r cs. get_user e ?h (profile a) = Returns ud
        \<and> fetch_repos e ?h (profile a) = Returns rs
        \<and> r \<in> set (reached e ?h (profile a) rs)
        \<and> fetch_commits e ?h (profile a) (repo_name r) = Returns (CommitArray cs) \<and> cs \<noteq> []
        \<and> commits a = map (view_commit e) cs \<and> repo a = repo_name r"
    if "a \<in> set ?acts" for a
  proof -
    define p' where "p' = profile a"
    from that have "a \<in> set (account_records e ?h p')"
      unfolding p'_def pa by simp
    then obtain ud rs r cs where
      f: "get_user e ?h p' = Returns ud" "fetch_repos e ?h p' = Returns rs"
         "r \<in> set (reached e ?h p' rs)"
         "fetch_commits e ?h p' (repo_name r) = Returns (CommitArray cs)" "cs \<noteq> []"
      and a: "a = make_activity e p' r cs ud"
      unfolding in_account_records by blast
    have "commits a = map (view_commit e) cs" "repo a = repo_name r"
      unfolding a by (simp_all add: make_activity_def)
    with f show ?thesis unfolding p'_def by blast
  qed
  have one: "\<forall>a\<in>set ?acts. commits a \<noteq> []"
  proof
    fix a assume "a \<in> set ?acts"
    from built [OF this] obtain cs where "cs \<noteq> []" "commits a = map (view_commit e) cs"
      by blast
    then show "commits a \<noteq> []" by simp
  qed
  have two: "\<forall>a\<in>set ?acts. \<not> (profile a = p \<and> repo a = n)"
    if nc: "no_commits (fetch_commits e ?h p n)"
  proof
    fix a assume "a \<in> set ?acts"
    from built [OF this] obtain r :: repo_json and cs where
      c: "fetch_commits e ?h (profile a) (repo_name r) = Returns (CommitArray cs)" "cs \<noteq> []"
      and r: "repo a = repo_name r"
      by blast
    show "\<not> (profile a = p \<and> repo a = n)"
    proof
      assume "profile a = p \<and> repo a = n"
      with c r have "fetch_commits e ?h p n = Returns (CommitArray cs)" by simp
      with nc c(2) show False by (simp add: no_commits_def)
    qed
  qed
  have three: "(\<forall>a\<in>set ?acts. profile a \<noteq> q) \<and> errors (fst (fetchData e st)) q = None"
    if u: "get_user e ?h q = Returns ud" and rs: "fetch_repos e ?h q = Returns rs"
      and ne: "rs \<noteq> []"
      and nc: "\<forall>r\<in>set rs. no_commits (fetch_commits e ?h q (repo_name r))"
  proof
    have nt: "\<forall>r\<in>set rs. \<not> throws (fetch_commits e ?h q (repo_name r))"
      using nc no_commits_not_throws by blast
    have "account_records e ?h q = concat (map (record_of e ?h q ud) rs)"
      using u rs by (simp add: account_records_def reached_all [OF nt])
    also have "\<dots> = []"
      using nc by (simp add: record_of_no_commits)
    finally have none: "account_records e ?h q = []" .
    show "\<forall>a\<in>set ?acts. profile a \<noteq> q"
    proof
      fix a assume "a \<in> set ?acts"
      then have "a \<in> set (account_records e ?h (profile a))" unfolding pa by simp
      with none show "profile a \<noteq> q" by auto
    qed
    have "account_error e ?h q = None"
      using u rs ne by (simp add: account_error_def reached_all [OF nt])
    then show "errors (fst (fetchData e st)) q = None"
      by (simp add: pe)
  qed
  have four: "errors (fst (fetchData e st)) z = Some (''No public repositories found for '' @ z)
            \<and> (\<forall>a\<in>set ?acts. profile a \<noteq> z)"
    if z: "z \<in> set (profiles st)" "z \<noteq> ''__proto__''"
      and u: "get_user e ?h z = Returns ud'" and rs: "fetch_repos e ?h z = Returns []"
  proof
    have "account_error e ?h z = Some (''No public repositories found for '' @ z)"
      using u rs by (simp add: account_error_def)
    then show "errors (fst (fetchData e st)) z = Some (''No public repositories found for '' @ z)"
      using z by (simp add: pe)
    have none: "account_records e ?h z = []"
      using u rs by (simp add: account_records_def reached_def)
    show "\<forall>a\<in>set ?acts. profile a \<noteq> z"
    proof
      fix a assume "a \<in> set ?acts"
      then have "a \<in> set (account_records e ?h (profile a))" unfolding pa by simp
      with none show "profile a \<noteq> z" by auto
    qed
  qed
  from one two three four show ?thesis by blast
qed

text \<open>
  On the example: \<^verbatim>\<open>alice/y\<close> has no commit, \<^verbatim>\<open>carol\<close> has one repository without
  commits, \<^verbatim>\<open>dave\<close> has no repository.
\<close>

theorem no_record_without_commits_witness:
  "fetch_rate_limit env_demo (headers_of (token st_three)) = Returns rl_demo
   \<and> remaining rl_demo \<noteq> 0
   \<and> no_commits (fetch_commits env_demo (headers_of (token st_three)) ''alice'' ''y'')
   \<and> get_user env_demo (headers_of (token st_three)) ''carol'' = Returns \<lparr>public_repos = 1\<rparr>
   \<and> fetch_repos env_demo (headers_of (token st_three)) ''carol'' = Returns [repo_z]
   \<and> no_commits (fetch_commits env_demo (headers_of (token st_three)) ''carol'' (repo_name repo_z))
   \<and> ''dave'' \<in> set (profiles st_three)
   \<and> get_user env_demo (headers_of (token st_three)) ''dave'' = Returns \<lparr>public_repos = 0\<rparr>
   \<and> fetch_repos env_demo (headers_of (token st_three)) ''dave'' = Returns []
   \<and> [] \<notin> set (map commits (activities (fst (fetchData env_demo st_three))))
   \<and> (''alice'', ''y'') \<notin> set (map (\<lambda>a. (profile a, repo a))
                                  (activities (fst (fetchData env_demo st_three))))
   \<and> ''carol'' \<notin> set (map profile (activities (fst (fetchData env_demo st_three))))
   \<and> errors (fst (fetchData env_demo st_three)) ''carol'' = None
   \<and> errors (fst (fetchData env_demo st_three)) ''dave''
       = Some ''No public repositories found for dave''
   \<and> ''dave'' \<notin> set (map profile (activities (fst (fetchData env_demo st_three))))"
proof -
  let ?h = "headers_of (token st_three)"
  have g: "fetch_rate_limit env_demo ?h = Returns rl_demo" "remaining rl_demo \<noteq> 0"
    by (simp_all add: env_demo_def rl_demo_def)
  have y: "no_commits (fetch_commits env_demo ?h ''alice'' ''y'')"
    by (simp add: no_commits_def env_demo_def)
  have c: "get_user env_demo ?h ''carol'' = Returns \<lparr>public_repos = 1\<rparr>"
      "fetch_repos env_demo ?h ''carol'' = Returns [repo_z]" "[repo_z] \<noteq> []"
      "\<forall>r\<in>set [repo_z]. no_commits (fetch_commits env_demo ?h ''carol'' (repo_name r))"
    by (simp_all add: get_user_def no_commits_def env_demo_def)
  have d: "''dave'' \<in> set (profiles st_three)" "''dave'' \<noteq> ''__proto__''"
      "get_user env_demo ?h ''dave'' = Returns \<lparr>public_repos = 0\<rparr>"
      "fetch_repos env_demo ?h ''dave'' = Returns []"
    by (simp_all add: get_user_def env_demo_def st_three_def st_demo_def)
  from no_record_without_commits [OF g, of "''alice''" "''y''" "''carol''"
      "\<lparr>public_repos = 1\<rparr>" "[repo_z]" "''dave''" "\<lparr>public_repos = 0\<rparr>"] y c d
  have "(\<forall>a\<in>set (activities (fst (fetchData env_demo st_three))). commits a \<noteq> [])"
    and "(\<forall>a\<in>set (activities (fst (fetchData env_demo st_three))).
            \<not> (profile a = ''alice'' \<and> repo a = ''y''))"
    and "(\<forall>a\<in>set (activities (fst (fetchData env_demo st_three))). profile a \<noteq> ''carol'')"
    and "errors (fst (fetchData env_demo st_three)) ''carol'' = None"
    and "errors (fst (fetchData env_demo st_three)) ''dave''
           = Some ''No public repositories found for dave''"
    and "(\<forall>a\<in>set (activities (fst (fetchData env_demo st_three))). profile a \<noteq> ''dave'')"
    by simp_all
  with g y c d show ?thesis by auto
qed

text \<open>
  Claim C7 at the input \<^verbatim>\<open>octocat, octocat\<close> with nothing tracked. Line 93 filters each
  piece against \<^verbatim>\<open>profiles\<close> as it was before the submission, so both pieces pass
  and both are appended: the tracked accounts hold the name twice. Names that differ
  from each other and from the tracked ones keep the list free of duplicates
  (\<open>add_keeps_distinct\<close>).
\<close>

theorem repeated_name_is_added_twice:
  "profileList st_typed = [''octocat'', ''octocat'']
   \<and> profiles (handleAddProfiles st_typed) = [''octocat'', ''octocat'']
   \<and> \<not> distinct (profiles (handleAddProfiles st_typed))"
  by (simp add: handleAddProfiles_def profileList_def trim_def is_space_def st_typed_def)

text \<open>
  Claim C8. An add operation appends to \<^verbatim>\<open>profiles\<close> and never appends a name that
  is tracked already: the tracked accounts keep their order. When every name of the
  submission is tracked already (or empty), nothing is appended and the state is the
  one before.
\<close>

theorem adding_tracked_account_is_identity:
  "profiles (handleAddProfiles st) = profiles st @ profileList st
   \<and> set (profileList st) \<inter> set (profiles st) = {}
   \<and> ((\<forall>q\<in>set (map trim (split_at CHR '','' (newProfiles st))). q = [] \<or> q \<in> set (profiles st))
        \<longrightarrow> handleAddProfiles st = st)"
proof -
  have "handleAddProfiles st = st"
    if "\<forall>q\<in>set (map trim (split_at CHR '','' (newProfiles st))). q = [] \<or> q \<in> set (profiles st)"
  proof -
    from that have "profileList st = []"
      unfolding profileList_def filter_empty_conv by blast
    then show ?thesis by (simp add: handleAddProfiles_def)
  qed
  with profiles_after_add profileList_fresh show ?thesis by blast
qed

text \<open>On the example: \<^verbatim>\<open>bob\<close> is tracked and submitted again.\<close>

theorem adding_tracked_account_is_identity_witness:
  "map trim (split_at CHR '','' (newProfiles st_again)) = [''bob'']
   \<and> ''bob'' \<in> set (profiles st_again)
   \<and> handleAddProfiles st_again = st_again
   \<and> profiles (handleAddProfiles st_again) = [''alice'', ''bob'']"
proof -
  have p: "map trim (split_at CHR '','' (newProfiles st_again)) = [''bob'']"
    by (simp add: trim_def is_space_def st_again_def)
  have b: "profiles st_again = [''alice'', ''bob'']"
    by (simp add: st_again_def st_demo_def)
  have "\<forall>q\<in>set (map trim (split_at CHR '','' (newProfiles st_again))). q = [] \<or> q \<in> set (profiles st_again)"
    by (simp add: p b)
  with adding_tracked_account_is_identity [of st_again]
  have "handleAddProfiles st_again = st_again" by blast
  with p b show ?thesis by simp
qed

text \<open>
  Claim C9. Let \<open>s\<close> be the state of the effect after any sequence of events since the
  component was mounted.
  \<^item> A commit with a tracked account in which \<^verbatim>\<open>profiles\<close> or \<^verbatim>\<open>token\<close> differ from
    the effect's last run calls \<^verbatim>\<open>fetchData\<close> once, at once, and leaves exactly one
    interval armed, with a period of 100 seconds and the new closure.
  \<^item> When the armed interval fires, \<^verbatim>\<open>fetchData\<close> is called once more.
  \<^item> After the component is unmounted no interval is armed, and whatever handle the
    host fires, no call is made.
  \<^item> The same holds after a commit without a tracked account.
\<close>

theorem polling_lifecycle:
  assumes "s = run mount evs"
  shows "(ps \<noteq> [] \<and> last_deps s \<noteq> Some (ps, tok) \<longrightarrow>
            calls (step s (Commit ps tok)) = calls s @ [(ps, tok)]
            \<and> intervals (step s (Commit ps tok)) = [(next_handle s, 100 * 1000, (ps, tok))])
     \<and> (pending_cleanup s = Some i \<longrightarrow>
            calls (step s (Fire i)) = calls s @ [the (last_deps s)])
     \<and> intervals (step s Unmount) = []
     \<and> calls (run (step s Unmount) (map Fire hs)) = calls s
     \<and> (last_deps s \<noteq> Some ([], tok) \<longrightarrow>
            intervals (step s (Commit [] tok)) = []
            \<and> calls (run (step s (Commit [] tok)) (map Fire hs)) = calls s)"
proof -
  have c: "consistent s"
    unfolding assms by (rule consistent_run [OF consistent_mount])
  have one: "calls (step s (Commit ps tok)) = calls s @ [(ps, tok)]
            \<and> intervals (step s (Commit ps tok)) = [(next_handle s, 100 * 1000, (ps, tok))]"
    if "ps \<noteq> []" "last_deps s \<noteq> Some (ps, tok)"
    using commit_changed(1,3) [OF c that(2) that(1)] by simp
  have two: "calls (step s (Fire i)) = calls s @ [the (last_deps s)]"
    if "pending_cleanup s = Some i"
    using fire_armed [OF c that] .
  have u: "intervals (step s Unmount) = []" "calls (step s Unmount) = calls s"
    using run_cleanup_clears [OF c] by simp_all
  have three: "calls (run (step s Unmount) (map Fire hs)) = calls s"
    by (simp only: fire_disarmed [OF u(1)] u(2))
  have four: "intervals (step s (Commit [] tok)) = []
            \<and> calls (run (step s (Commit [] tok)) (map Fire hs)) = calls s"
    if "last_deps s \<noteq> Some ([], tok)"
  proof -
    have e: "intervals (step s (Commit [] tok)) = []" "calls (step s (Commit [] tok)) = calls s"
      using commit_changed(4,6) [OF c that] by simp_all
    show ?thesis by (simp only: fire_disarmed [OF e(1)] e)
  qed
  from one two u(1) three four show ?thesis by blast
qed

text \<open>
  On an example: \<^verbatim>\<open>alice\<close> is tracked; then \<^verbatim>\<open>bob\<close> is added, or the interval fires,
  or the component is unmounted and stale handles fire.
\<close>

theorem polling_lifecycle_witness:
  "last_deps (run mount [Commit [''alice''] []]) \<noteq> Some ([''alice'', ''bob''], [])
   \<and> calls (run mount [Commit [''alice''] []]) = [([''alice''], [])]
   \<and> intervals (run mount [Commit [''alice''] []]) = [(0, 100000, ([''alice''], []))]
   \<and> calls (step (run mount [Commit [''alice''] []]) (Commit [''alice'', ''bob''] []))
       = [([''alice''], []), ([''alice'', ''bob''], [])]
   \<and> intervals (step (run mount [Commit [''alice''] []]) (Commit [''alice'', ''bob''] []))
       = [(1, 100000, ([''alice'', ''bob''], []))]
   \<and> calls (step (run mount [Commit [''alice''] []]) (Fire 0))
       = [([''alice''], []), ([''alice''], [])]
   \<and> intervals (step (run mount [Commit [''alice''] []]) Unmount) = []
   \<and> calls (run (step (run mount [Commit [''alice''] []]) Unmount) (map Fire [0, 0, 1]))
       = [([''alice''], [])]"
proof -
  let ?s = "run mount [Commit [''alice''] []]"
  have s: "?s = \<lparr>last_deps = Some ([''alice''], []), pending_cleanup = Some 0,
                 intervals = [(0, 100000, ([''alice''], []))], next_handle = 1,
                 calls = [([''alice''], [])]\<rparr>"
    by (simp add: run_def mount_def effect_def setInterval_def run_cleanup_def)
  have h: "[''alice'', ''bob''] \<noteq> ([] :: string list)"
      "last_deps ?s \<noteq> Some ([''alice'', ''bob''], [])" "pending_cleanup ?s = Some 0"
    by (simp_all add: s)
  from polling_lifecycle [of ?s "[Commit [''alice''] []]" "[''alice'', ''bob'']" "[]" 0 "[0, 0, 1]"] h
  have "calls (step ?s (Commit [''alice'', ''bob''] [])) = calls ?s @ [([''alice'', ''bob''], [])]"
    and "intervals (step ?s (Commit [''alice'', ''bob''] []))
           = [(next_handle ?s, 100 * 1000, ([''alice'', ''bob''], []))]"
    and "calls (step ?s (Fire 0)) = calls ?s @ [the (last_deps ?s)]"
    and "intervals (step ?s Unmount) = []"
    and "calls (run (step ?s Unmount) (map Fire [0, 0, 1])) = calls ?s"
    by blast+
  with h show ?thesis by (simp add: s)
qed

text \<open>
  Claim C10. Read off the published records, the account, the repository and the
  commits (message, date, link) are: for each tracked account in the order of
  \<^verbatim>\<open>profiles\<close>, for each of its repositories that gets a record in the order of the
  repositories listing, the name of the account, the name of the repository and the
  commits of the commit listing in the order of that listing. So the records are
  grouped by account in insertion order and, within an account, follow the discovery
  order of the repositories. The result is a function of the tracked accounts and the
  answers of the service.
\<close>

theorem activities_in_order:
  assumes "fetch_rate_limit e (headers_of (token st)) = Returns rl" and "remaining rl \<noteq> 0"
  shows "map (\<lambda>a. (profile a, repo a, map (\<lambda>v. (message v, date v, commitUrl v)) (commits a)))
           (activities (fst (fetchData e st)))
         = concat (map (\<lambda>p. map (\<lambda>r. (p, repo_name r,
                     map (\<lambda>c. (commit_message c, new_Date e (commit_author_date c),
                                commit_html_url c))
                       (listed_commits e (headers_of (token st)) p r)))
                   (active_repos e (headers_of (token st)) p))
             (profiles st))
     \<and> (get_user e (headers_of (token st)) q = Returns ud
          \<and> fetch_repos e (headers_of (token st)) q = Returns rs
        \<longrightarrow> active_repos e (headers_of (token st)) q
            = filter (\<lambda>r. listed_commits e (headers_of (token st)) q r \<noteq> [])
                (takeWhile
                   (\<lambda>r. \<not> throws (fetch_commits e (headers_of (token st)) q (repo_name r)))
                   rs))"
proof -
  let ?h = "headers_of (token st)"
  let ?F = "\<lambda>a. (profile a, repo a, map (\<lambda>v. (message v, date v, commitUrl v)) (commits a))"
  have "activities (fst (fetchData e st)) = concat (map (account_records e ?h) (profiles st))"
    using assms by (simp add: fetchData_pass)
  then have "map ?F (activities (fst (fetchData e st)))
        = concat (map (\<lambda>p. map ?F (account_records e ?h p)) (profiles st))"
    by (simp add: map_concat comp_def)
  then have one: "map ?F (activities (fst (fetchData e st)))
         = concat (map (\<lambda>p. map (\<lambda>r. (p, repo_name r,
                     map (\<lambda>c. (commit_message c, new_Date e (commit_author_date c),
                                commit_html_url c))
                       (listed_commits e ?h p r)))
                   (active_repos e ?h p))
             (profiles st))"
    by (simp only: account_records_fields)
  have two: "active_repos e ?h q
            = filter (\<lambda>r. listed_commits e ?h q r \<noteq> [])
                (takeWhile (\<lambda>r. \<not> throws (fetch_commits e ?h q (repo_name r))) rs)"
    if "get_user e ?h q = Returns ud" "fetch_repos e ?h q = Returns rs"
    using that by (simp add: active_repos_def reached_def)
  from one two show ?thesis by blast
qed

text \<open>
  On the example: \<^verbatim>\<open>carol\<close>, \<^verbatim>\<open>bob\<close> and \<^verbatim>\<open>alice\<close> are tracked in this order;
  \<^verbatim>\<open>carol\<close> has activity in \<^verbatim>\<open>z\<close>, \<^verbatim>\<open>bob\<close> is not found, \<^verbatim>\<open>alice\<close> has activity in
  \<^verbatim>\<open>x\<close> (two commits) and in \<^verbatim>\<open>y\<close>. Three records are published, in that order.
\<close>

theorem activities_in_order_witness:
  "fetch_rate_limit env_busy (headers_of (token st_busy)) = Returns rl_demo
   \<and> remaining rl_demo \<noteq> 0
   \<and> profiles st_busy = [''carol'', ''bob'', ''alice'']
   \<and> map repo_name (active_repos env_busy (headers_of (token st_busy)) ''carol'') = [''z'']
   \<and> map repo_name (active_repos env_busy (headers_of (token st_busy)) ''bob'') = []
   \<and> map repo_name (active_repos env_busy (headers_of (token st_busy)) ''alice'') = [''x'', ''y'']
   \<and> map (\<lambda>a. (profile a, repo a, map (\<lambda>v. (message v, date v, commitUrl v)) (commits a)))
        (activities (fst (fetchData env_busy st_busy)))
       = [(''carol'', ''z'',
             [(''fourth'', Some 1727598600000, ''https://github.com/carol/z/commit/4'')]),
          (''alice'', ''x'',
             [(''second'', Some 1727598600000, ''https://github.com/alice/x/commit/2''),
              (''first'', Some 1727517600000, ''https://github.com/alice/x/commit/1'')]),
          (''alice'', ''y'',
             [(''third'', Some 1727517600000, ''https://github.com/alice/y/commit/3'')])]"
proof -
  let ?h = "headers_of (token st_busy)"
  have g: "fetch_rate_limit env_busy ?h = Returns rl_demo" "remaining rl_demo \<noteq> 0"
    by (simp_all add: env_busy_def env_demo_def rl_demo_def)
  have ps: "profiles st_busy = [''carol'', ''bob'', ''alice'']"
    by (simp add: st_busy_def)
  have c: "active_repos env_busy ?h ''carol'' = [repo_z]"
    by (simp add: active_repos_def listed_commits_def get_user_def reached_def throws_def
          env_busy_def env_demo_def repo_z_def)
  have b: "active_repos env_busy ?h ''bob'' = []"
    by (simp add: active_repos_def get_user_def env_busy_def env_demo_def)
  have a: "active_repos env_busy ?h ''alice'' = [repo_x, repo_y]"
    by (simp add: active_repos_def listed_commits_def get_user_def reached_def throws_def
          env_busy_def env_demo_def repo_x_def repo_y_def)
  have l: "listed_commits env_busy ?h ''carol'' repo_z = [commit_4]"
      "listed_commits env_busy ?h ''alice'' repo_x = [commit_2, commit_1]"
      "listed_commits env_busy ?h ''alice'' repo_y = [commit_3]"
    by (simp_all add: listed_commits_def env_busy_def repo_x_def repo_y_def repo_z_def)
  have d: "Date_parse env_busy = demo_parse"
    by (simp add: env_busy_def env_demo_def)
  have n: "map repo_name [repo_z] = [''z'']" "map repo_name [repo_x, repo_y] = [''x'', ''y'']"
      "repo_name repo_z = ''z''" "repo_name repo_x = ''x''" "repo_name repo_y = ''y''"
    by (simp_all add: repo_x_def repo_y_def repo_z_def)
  have v: "commit_message commit_4 = ''fourth''"
      "new_Date env_busy (commit_author_date commit_4) = Some 1727598600000"
      "commit_html_url commit_4 = ''https://github.com/carol/z/commit/4''"
      "commit_message commit_2 = ''second''"
      "new_Date env_busy (commit_author_date commit_2) = Some 1727598600000"
      "commit_html_url commit_2 = ''https://github.com/alice/x/commit/2''"
      "commit_message commit_1 = ''first''"
      "new_Date env_busy (commit_author_date commit_1) = Some 1727517600000"
      "commit_html_url commit_1 = ''https://github.com/alice/x/commit/1''"
      "commit_message commit_3 = ''third''"
      "new_Date env_busy (commit_author_date commit_3) = Some 1727517600000"
      "commit_html_url commit_3 = ''https://github.com/alice/y/commit/3''"
    by (simp_all add: new_Date_def TimeClip_def d demo_parse_def
          commit_1_def commit_2_def commit_3_def commit_4_def)
  have "map (\<lambda>a. (profile a, repo a, map (\<lambda>v. (message v, date v, commitUrl v)) (commits a)))
        (activities (fst (fetchData env_busy st_busy)))
       = [(''carol'', ''z'',
             [(''fourth'', Some 1727598600000, ''https://github.com/carol/z/commit/4'')]),
          (''alice'', ''x'',
             [(''second'', Some 1727598600000, ''https://github.com/alice/x/commit/2''),
              (''first'', Some 1727517600000, ''https://github.com/alice/x/commit/1'')]),
          (''alice'', ''y'',
             [(''third'', Some 1727517600000, ''https://github.com/alice/y/commit/3'')])]"
    unfolding activities_in_order [OF g, THEN conjunct1] ps
    by (simp add: a b c l n v)
  with g ps a b c n show ?thesis by simp
qed

end
